theory Spec2Isabelle
  imports Complex_Main "HOL-Library.Word"
begin

section \<open>Platform values\<close>

text \<open>
  A JavaScript string is a sequence of UTF-16 code units; a code unit is a natural number
  below 65536. File contents and binary frames are sequences of bytes. String literals of
  the source are written as HOL strings and injected with \<open>js\<close>.
\<close>

type_synonym jsstring = "nat list"
type_synonym byte = "8 word"

definition js :: "string \<Rightarrow> jsstring" where
  "js s = map of_char s"

text \<open>
  A value produced by \<open>JSON.parse\<close>. A number is kept as sign, decimal mantissa and
  number of decimals (\<open>JNum neg m d\<close> is \<open>\<plusminus> m / 10 ^ d\<close>), that is, as the exact
  value of its literal; the double that the literal stands for is taken where the number
  is tested or used in arithmetic (\<open>truthy\<close>, \<open>divide_by\<close>), and an integer below
  \<open>2 ^ 53\<close> is its own double. An object keeps its
  members in the order of the text; a property read takes the last member with the key.
  \<open>None\<close> of type \<open>jsval\<close> is \<open>undefined\<close>.
\<close>

datatype json =
    JNull
  | JBool bool
  | JNum bool nat nat
  | JStr jsstring
  | JArr "json list"
  | JObj "(jsstring \<times> json) list"

type_synonym jsval = "json option"

datatype exn = InvalidCharacterError | SyntaxError | TypeError

text \<open>
  The result of an arithmetic expression. \<open>Fin\<close> carries the value of a finite double
  as a rational; the sign of zero is not kept. \<open>Coerced v\<close> stands for an expression
  whose divisor is the string, array or object \<open>v\<close>: ECMAScript's conversion of those
  to a number is not modelled.
\<close>

datatype jsnumber = Fin rat | NaN | PosInfinity | NegInfinity | Coerced json

subsection \<open>btoa and atob\<close>

text \<open>
  \<open>btoa\<close> throws on a code unit above 255 and otherwise encodes the code units as bytes
  in base64 with padding. \<open>atob\<close> is the forgiving base64 decoder: ASCII whitespace is
  removed, one or two padding characters are removed when the length is a multiple of
  four, a length of 1 modulo 4 and any character outside the alphabet throw.
\<close>

fun b64char :: "nat \<Rightarrow> nat" where
  "b64char i =
     (if i < 26 then 65 + i
      else if i < 52 then 97 + (i - 26)
      else if i < 62 then 48 + (i - 52)
      else if i = 62 then 43
      else 47)"

fun b64enc :: "nat list \<Rightarrow> nat list" where
  "b64enc [] = []"
| "b64enc [a] = [b64char (a div 4), b64char (a mod 4 * 16), 61, 61]"
| "b64enc [a, b] =
     [b64char (a div 4), b64char (a mod 4 * 16 + b div 16), b64char (b mod 16 * 4), 61]"
| "b64enc (a # b # c # r) =
     b64char (a div 4) # b64char (a mod 4 * 16 + b div 16) #
     b64char (b mod 16 * 4 + c div 64) # b64char (c mod 64) # b64enc r"

definition btoa :: "jsstring \<Rightarrow> exn + jsstring" where
  "btoa s = (if list_ex (\<lambda>c. 255 < c) s then Inl InvalidCharacterError else Inr (b64enc s))"

fun b64val :: "nat \<Rightarrow> nat option" where
  "b64val c =
     (if 65 \<le> c \<and> c \<le> 90 then Some (c - 65)
      else if 97 \<le> c \<and> c \<le> 122 then Some (c - 97 + 26)
      else if 48 \<le> c \<and> c \<le> 57 then Some (c - 48 + 52)
      else if c = 43 then Some 62
      else if c = 47 then Some 63
      else None)"

fun b64dec :: "nat list \<Rightarrow> nat list" where
  "b64dec (a # b # c # d # r) =
     (a * 4 + b div 16) # (b mod 16 * 16 + c div 4) # (c mod 4 * 64 + d) # b64dec r"
| "b64dec [a, b, c] = [a * 4 + b div 16, b mod 16 * 16 + c div 4]"
| "b64dec [a, b] = [a * 4 + b div 16]"
| "b64dec _ = []"

definition ascii_whitespace :: "nat \<Rightarrow> bool" where
  "ascii_whitespace c = (c = 9 \<or> c = 10 \<or> c = 12 \<or> c = 13 \<or> c = 32)"

definition strip_padding :: "nat list \<Rightarrow> nat list" where
  "strip_padding d =
     (if length d mod 4 = 0 \<and> d \<noteq> [] \<and> last d = 61
      then (if butlast d \<noteq> [] \<and> last (butlast d) = 61 then butlast (butlast d)
            else butlast d)
      else d)"

definition atob :: "jsstring \<Rightarrow> exn + jsstring" where
  "atob s =
     (let d = strip_padding (filter (\<lambda>c. \<not> ascii_whitespace c) s) in
      if length d mod 4 = 1 then Inl InvalidCharacterError
      else if list_ex (\<lambda>c. b64val c = None) d then Inl InvalidCharacterError
      else Inr (b64dec (map (\<lambda>c. the (b64val c)) d)))"

text \<open>
  What \<open>atob\<close> asks of the text \<open>d\<close> that is left after whitespace and padding are
  removed, for the result \<open>s\<close>.
\<close>

definition b64_decodes :: "nat list \<Rightarrow> nat list \<Rightarrow> bool" where
  "b64_decodes d s =
     (length d mod 4 \<noteq> 1 \<and> \<not> list_ex (\<lambda>c. b64val c = None) d \<and>
      b64dec (map (\<lambda>c. the (b64val c)) d) = s)"

subsection \<open>JSON.stringify\<close>

text \<open>
  Strings are quoted as ECMAScript's QuoteJSONString does: the short escapes, a
  \<open>\u\<close> escape with lower-case digits for the other control characters and for a
  surrogate without its partner, every other code unit as it is. A number is printed in
  plain decimal notation (the platform switches to exponent notation outside
  \<open>1e-6 .. 1e21\<close>; file sizes are integers far below).
\<close>

definition hexdigit :: "nat \<Rightarrow> nat" where
  "hexdigit d = (if d < 10 then 48 + d else 87 + d)"

definition unicode_escape :: "nat \<Rightarrow> jsstring" where
  "unicode_escape c =
     [92, 117, hexdigit (c div 4096 mod 16), hexdigit (c div 256 mod 16),
      hexdigit (c div 16 mod 16), hexdigit (c mod 16)]"

definition high_surrogate :: "nat \<Rightarrow> bool" where
  "high_surrogate c = (55296 \<le> c \<and> c \<le> 56319)"

definition low_surrogate :: "nat \<Rightarrow> bool" where
  "low_surrogate c = (56320 \<le> c \<and> c \<le> 57343)"

fun quote_body :: "jsstring \<Rightarrow> jsstring" where
  "quote_body [] = []"
| "quote_body (c # cs) =
     (if c = 8 then [92, 98] @ quote_body cs
      else if c = 9 then [92, 116] @ quote_body cs
      else if c = 10 then [92, 110] @ quote_body cs
      else if c = 12 then [92, 102] @ quote_body cs
      else if c = 13 then [92, 114] @ quote_body cs
      else if c = 34 then [92, 34] @ quote_body cs
      else if c = 92 then [92, 92] @ quote_body cs
      else if c < 32 then unicode_escape c @ quote_body cs
      else if high_surrogate c then
        (case cs of
           [] \<Rightarrow> unicode_escape c
         | d # ds \<Rightarrow>
             if low_surrogate d then c # d # quote_body ds
             else unicode_escape c @ quote_body cs)
      else if low_surrogate c then unicode_escape c @ quote_body cs
      else c # quote_body cs)"

definition quoteJSON :: "jsstring \<Rightarrow> jsstring" where
  "quoteJSON s = 34 # quote_body s @ [34]"

fun dec_digits :: "nat \<Rightarrow> jsstring" where
  "dec_digits n = (if n < 10 then [48 + n] else dec_digits (n div 10) @ [48 + n mod 10])"

declare dec_digits.simps [simp del]

fun frac_digits :: "nat \<Rightarrow> nat \<Rightarrow> jsstring" where
  "frac_digits 0 m = []"
| "frac_digits (Suc d) m = frac_digits d (m div 10) @ [48 + m mod 10]"

definition number_to_string :: "bool \<Rightarrow> nat \<Rightarrow> nat \<Rightarrow> jsstring" where
  "number_to_string neg m d =
     (if neg \<and> m \<noteq> 0 then [45] else []) @ dec_digits (m div 10 ^ d) @
     (if d = 0 then [] else 46 # frac_digits d (m mod 10 ^ d))"

fun join_commas :: "jsstring list \<Rightarrow> jsstring" where
  "join_commas [] = []"
| "join_commas [x] = x"
| "join_commas (x # y # ys) = x @ 44 # join_commas (y # ys)"

fun JSON_stringify :: "json \<Rightarrow> jsstring" where
  "JSON_stringify JNull = js ''null''"
| "JSON_stringify (JBool b) = (if b then js ''true'' else js ''false'')"
| "JSON_stringify (JNum neg m d) = number_to_string neg m d"
| "JSON_stringify (JStr s) = quoteJSON s"
| "JSON_stringify (JArr xs) = 91 # join_commas (map JSON_stringify xs) @ [93]"
| "JSON_stringify (JObj kvs) =
     123 # join_commas (map (\<lambda>kv. quoteJSON (fst kv) @ 58 # JSON_stringify (snd kv)) kvs) @ [125]"

subsection \<open>JSON.parse\<close>

text \<open>
  The text is cut into tokens and the tokens are read by a machine with an explicit
  stack of the containers that are open. Whitespace is tab, line feed, carriage return
  and space. Any text outside the JSON grammar is a \<open>SyntaxError\<close>.
\<close>

datatype token =
    TLBrace | TRBrace | TLBracket | TRBracket | TColon | TComma
  | TString jsstring | TNumber bool nat nat | TTrue | TFalse | TNull

definition hexval :: "nat \<Rightarrow> nat option" where
  "hexval c =
     (if 48 \<le> c \<and> c \<le> 57 then Some (c - 48)
      else if 97 \<le> c \<and> c \<le> 102 then Some (c - 87)
      else if 65 \<le> c \<and> c \<le> 70 then Some (c - 55)
      else None)"

definition hex4 :: "nat \<Rightarrow> nat \<Rightarrow> nat \<Rightarrow> nat \<Rightarrow> nat option" where
  "hex4 a b c d =
     (case (hexval a, hexval b, hexval c, hexval d) of
        (Some w, Some x, Some y, Some z) \<Rightarrow> Some (w * 4096 + x * 256 + y * 16 + z)
      | _ \<Rightarrow> None)"

definition unescape :: "nat \<Rightarrow> nat option" where
  "unescape e =
     (if e = 34 then Some 34
      else if e = 92 then Some 92
      else if e = 47 then Some 47
      else if e = 98 then Some 8
      else if e = 102 then Some 12
      else if e = 110 then Some 10
      else if e = 114 then Some 13
      else if e = 116 then Some 9
      else None)"

definition cons_unit :: "nat \<Rightarrow> (jsstring \<times> nat list) option \<Rightarrow> (jsstring \<times> nat list) option" where
  "cons_unit c r = (case r of None \<Rightarrow> None | Some (s, t) \<Rightarrow> Some (c # s, t))"

text \<open>
  \<open>lex_string\<close> reads the body of a string literal after its opening quote and returns
  the string with the text after the closing quote.
\<close>

fun lex_string :: "nat list \<Rightarrow> (jsstring \<times> nat list) option" where
  "lex_string [] = None"
| "lex_string (c # cs) =
     (if c = 34 then Some ([], cs)
      else if c = 92 then
        (case cs of
           [] \<Rightarrow> None
         | e # r \<Rightarrow>
             if e = 117 then
               (case r of
                  a # b # x # d # r' \<Rightarrow>
                    (case hex4 a b x d of
                       None \<Rightarrow> None
                     | Some u \<Rightarrow> cons_unit u (lex_string r'))
                | _ \<Rightarrow> None)
             else
               (case unescape e of
                  None \<Rightarrow> None
                | Some u \<Rightarrow> cons_unit u (lex_string r)))
      else if c < 32 then None
      else cons_unit c (lex_string cs))"

definition is_digit :: "nat \<Rightarrow> bool" where
  "is_digit c = (48 \<le> c \<and> c \<le> 57)"

definition digits_value :: "nat list \<Rightarrow> nat" where
  "digits_value ds = foldl (\<lambda>a c. 10 * a + (c - 48)) 0 ds"

text \<open>
  A number is normalised so that equal values are equal terms: no decimals are kept
  that are zero at the end of the mantissa.
\<close>

fun normalise :: "nat \<Rightarrow> nat \<Rightarrow> nat \<times> nat" where
  "normalise m 0 = (m, 0)"
| "normalise m (Suc d) = (if m mod 10 = 0 then normalise (m div 10) d else (m, Suc d))"

definition scale :: "nat \<Rightarrow> nat \<Rightarrow> bool \<Rightarrow> nat \<Rightarrow> nat \<times> nat" where
  "scale m fd eneg e =
     (if eneg then normalise m (fd + e)
      else if e \<le> fd then normalise m (fd - e)
      else (m * 10 ^ (e - fd), 0))"

text \<open>
  \<open>lex_number\<close> reads \<open>-? int frac? exp?\<close> where \<open>int\<close> is \<open>0\<close> or starts with a
  digit that is not zero.
\<close>

definition lex_exponent :: "nat list \<Rightarrow> ((bool \<times> nat) \<times> nat list) option" where
  "lex_exponent s =
     (case s of
        [] \<Rightarrow> Some ((False, 0), [])
      | c # r \<Rightarrow>
          if c = 101 \<or> c = 69 then
            (let (eneg, r1) =
                   (case r of
                      [] \<Rightarrow> (False, r)
                    | g # r' \<Rightarrow> if g = 45 then (True, r') else if g = 43 then (False, r') else (False, r));
                 ds = takeWhile is_digit r1
             in if ds = [] then None else Some ((eneg, digits_value ds), dropWhile is_digit r1))
          else Some ((False, 0), s))"

definition lex_fraction :: "nat list \<Rightarrow> (nat list \<times> nat list) option" where
  "lex_fraction s =
     (case s of
        [] \<Rightarrow> Some ([], [])
      | c # r \<Rightarrow>
          if c = 46 then
            (let ds = takeWhile is_digit r
             in if ds = [] then None else Some (ds, dropWhile is_digit r))
          else Some ([], s))"

definition lex_sign :: "nat list \<Rightarrow> bool \<times> nat list" where
  "lex_sign s = (case s of [] \<Rightarrow> (False, []) | c # r \<Rightarrow> if c = 45 then (True, r) else (False, s))"

definition lex_unsigned :: "nat list \<Rightarrow> ((nat \<times> nat) \<times> nat list) option" where
  "lex_unsigned s =
     (let ip = takeWhile is_digit s in
      if ip = [] \<or> (1 < length ip \<and> hd ip = 48) then None
      else
        (case lex_fraction (dropWhile is_digit s) of
           None \<Rightarrow> None
         | Some (fp, s3) \<Rightarrow>
             (case lex_exponent s3 of
                None \<Rightarrow> None
              | Some ((eneg, e), s4) \<Rightarrow>
                  Some (scale (digits_value (ip @ fp)) (length fp) eneg e, s4))))"

definition lex_number :: "nat list \<Rightarrow> ((bool \<times> nat \<times> nat) \<times> nat list) option" where
  "lex_number s =
     (case lex_unsigned (snd (lex_sign s)) of
        None \<Rightarrow> None
      | Some ((m, d), r) \<Rightarrow> Some ((fst (lex_sign s), m, d), r))"

text \<open>A character after which a number cannot go on.\<close>

definition number_end :: "nat \<Rightarrow> bool" where
  "number_end c = (\<not> is_digit c \<and> c \<noteq> 46 \<and> c \<noteq> 101 \<and> c \<noteq> 69)"

definition json_whitespace :: "nat \<Rightarrow> bool" where
  "json_whitespace c = (c = 9 \<or> c = 10 \<or> c = 13 \<or> c = 32)"

definition cons_token :: "token \<Rightarrow> token list option \<Rightarrow> token list option" where
  "cons_token t r = map_option ((#) t) r"

lemma lex_string_length: "lex_string cs = Some (s, r) \<Longrightarrow> length r \<le> length cs"
proof (induction cs arbitrary: s r rule: lex_string.induct)
  case 1
  then show ?case by simp
next
  case (2 c cs)
  then show ?case
    by (fastforce simp: cons_unit_def split: if_splits list.splits option.splits)
qed

lemma lex_exponent_length: "lex_exponent s = Some (x, r) \<Longrightarrow> length r \<le> length s"
proof -
  have dw: "length (dropWhile is_digit t) \<le> length t" for t
    by (rule length_dropWhile_le)
  assume "lex_exponent s = Some (x, r)"
  then show ?thesis
    using dw [of "tl s"] dw [of "tl (tl s)"]
    by (auto simp: lex_exponent_def Let_def split: list.splits if_splits)
qed

lemma lex_fraction_length: "lex_fraction s = Some (x, r) \<Longrightarrow> length r \<le> length s"
  using length_dropWhile_le [of is_digit "tl s"]
  by (auto simp: lex_fraction_def Let_def split: list.splits if_splits)

lemma lex_unsigned_length: "lex_unsigned s = Some (x, r) \<Longrightarrow> length r < length s"
proof -
  assume a: "lex_unsigned s = Some (x, r)"
  have ne: "takeWhile is_digit s \<noteq> []"
    using a by (simp add: lex_unsigned_def Let_def split: if_splits)
  have "length (takeWhile is_digit s) + length (dropWhile is_digit s) = length s"
    by (metis length_append takeWhile_dropWhile_id)
  with ne have lt: "length (dropWhile is_digit s) < length s"
    by (cases "takeWhile is_digit s") auto
  obtain fp s3 e where f: "lex_fraction (dropWhile is_digit s) = Some (fp, s3)"
    and e: "lex_exponent s3 = Some (e, r)"
    using a ne
    by (auto simp: lex_unsigned_def Let_def split: if_splits option.splits prod.splits)
  from lex_fraction_length [OF f] lex_exponent_length [OF e] lt
  show ?thesis by simp
qed

lemma lex_number_length: "lex_number s = Some (x, r) \<Longrightarrow> length r < length s"
proof -
  assume a: "lex_number s = Some (x, r)"
  then obtain y where u: "lex_unsigned (snd (lex_sign s)) = Some (y, r)"
    by (auto simp: lex_number_def split: option.splits prod.splits)
  have "length (snd (lex_sign s)) \<le> length s"
    by (simp add: lex_sign_def split: list.splits)
  with lex_unsigned_length [OF u] show ?thesis by simp
qed

text \<open>\<open>tokenize\<close> cuts the whole text into tokens.\<close>

function tokenize :: "nat list \<Rightarrow> token list option" where
  "tokenize [] = Some []"
| "tokenize (c # cs) =
     (if json_whitespace c then tokenize cs
      else if c = 123 then cons_token TLBrace (tokenize cs)
      else if c = 125 then cons_token TRBrace (tokenize cs)
      else if c = 91 then cons_token TLBracket (tokenize cs)
      else if c = 93 then cons_token TRBracket (tokenize cs)
      else if c = 58 then cons_token TColon (tokenize cs)
      else if c = 44 then cons_token TComma (tokenize cs)
      else if c = 34 then
        (case lex_string cs of
           None \<Rightarrow> None
         | Some (s, r) \<Rightarrow> cons_token (TString s) (tokenize r))
      else if c = 45 \<or> is_digit c then
        (case lex_number (c # cs) of
           None \<Rightarrow> None
         | Some ((neg, m, d), r) \<Rightarrow> cons_token (TNumber neg m d) (tokenize r))
      else if take 4 (c # cs) = js ''true'' then cons_token TTrue (tokenize (drop 3 cs))
      else if take 5 (c # cs) = js ''false'' then cons_token TFalse (tokenize (drop 4 cs))
      else if take 4 (c # cs) = js ''null'' then cons_token TNull (tokenize (drop 3 cs))
      else None)"
  by pat_completeness auto
termination
  by (relation "measure length") (auto dest: lex_string_length lex_number_length)

text \<open>
  The machine that reads the tokens. A frame of the stack is an array with its elements
  so far, or an object with its members so far and the key whose value is being read
  (both in reverse).
\<close>

datatype frame = FArr "json list" | FObj "(jsstring \<times> json) list" jsstring

datatype pstate =
    SVal "frame list"
  | SArr0 "frame list"
  | SObj0 "frame list"
  | SKey "(jsstring \<times> json) list" "frame list"
  | SColon "(jsstring \<times> json) list" jsstring "frame list"
  | SArrNext "json list" "frame list"
  | SObjNext "(jsstring \<times> json) list" "frame list"
  | SDone json

fun complete :: "json \<Rightarrow> frame list \<Rightarrow> pstate" where
  "complete v [] = SDone v"
| "complete v (FArr xs # stk) = SArrNext (v # xs) stk"
| "complete v (FObj kvs k # stk) = SObjNext ((k, v) # kvs) stk"

fun value_token :: "token \<Rightarrow> frame list \<Rightarrow> pstate option" where
  "value_token (TString s) stk = Some (complete (JStr s) stk)"
| "value_token (TNumber neg m d) stk = Some (complete (JNum neg m d) stk)"
| "value_token TTrue stk = Some (complete (JBool True) stk)"
| "value_token TFalse stk = Some (complete (JBool False) stk)"
| "value_token TNull stk = Some (complete JNull stk)"
| "value_token TLBracket stk = Some (SArr0 stk)"
| "value_token TLBrace stk = Some (SObj0 stk)"
| "value_token _ stk = None"

fun pstep :: "pstate \<Rightarrow> token \<Rightarrow> pstate option" where
  "pstep (SVal stk) t = value_token t stk"
| "pstep (SArr0 stk) t =
     (if t = TRBracket then Some (complete (JArr []) stk) else value_token t (FArr [] # stk))"
| "pstep (SObj0 stk) t =
     (case t of
        TRBrace \<Rightarrow> Some (complete (JObj []) stk)
      | TString k \<Rightarrow> Some (SColon [] k stk)
      | _ \<Rightarrow> None)"
| "pstep (SKey kvs stk) t = (case t of TString k \<Rightarrow> Some (SColon kvs k stk) | _ \<Rightarrow> None)"
| "pstep (SColon kvs k stk) t = (if t = TColon then Some (SVal (FObj kvs k # stk)) else None)"
| "pstep (SArrNext xs stk) t =
     (case t of
        TComma \<Rightarrow> Some (SVal (FArr xs # stk))
      | TRBracket \<Rightarrow> Some (complete (JArr (rev xs)) stk)
      | _ \<Rightarrow> None)"
| "pstep (SObjNext kvs stk) t =
     (case t of
        TComma \<Rightarrow> Some (SKey kvs stk)
      | TRBrace \<Rightarrow> Some (complete (JObj (rev kvs)) stk)
      | _ \<Rightarrow> None)"
| "pstep (SDone v) t = None"

fun prun :: "pstate \<Rightarrow> token list \<Rightarrow> pstate option" where
  "prun st [] = Some st"
| "prun st (t # ts) = (case pstep st t of None \<Rightarrow> None | Some st' \<Rightarrow> prun st' ts)"

definition JSON_parse :: "jsstring \<Rightarrow> exn + json" where
  "JSON_parse s =
     (case tokenize s of
        None \<Rightarrow> Inl SyntaxError
      | Some ts \<Rightarrow>
          (case prun (SVal []) ts of
             Some (SDone v) \<Rightarrow> Inr v
           | _ \<Rightarrow> Inl SyntaxError))"

subsection \<open>Property reads, truthiness and arithmetic\<close>

text \<open>
  \<open>getProp v k\<close> is the expression \<open>v.k\<close> for the property names the program reads
  (\<open>passwordHash\<close>, \<open>fileName\<close>, \<open>fileSize\<close>, \<open>sdp\<close>, \<open>type\<close>): a \<open>TypeError\<close> on
  \<open>null\<close>, the last member with the key on an object, \<open>undefined\<close> on every other
  value.
\<close>

fun getProp :: "json \<Rightarrow> jsstring \<Rightarrow> exn + jsval" where
  "getProp JNull k = Inl TypeError"
| "getProp (JObj kvs) k = Inr (map_of (rev kvs) k)"
| "getProp v k = Inr None"

text \<open>
  The arithmetic of the platform is that of IEEE 754 binary64: the result of a division
  or a multiplication is the exact result rounded to the nearest double, a tie going to
  the even significand. \<open>bit_length n\<close> is the number of binary digits of \<open>n\<close>,
  \<open>binade q\<close> the exponent \<open>e\<close> with \<open>2 ^ e \<le> q < 2 ^ (e + 1)\<close> for a positive \<open>q\<close>, and
  \<open>binary64 q\<close> the double nearest to \<open>q\<close>: 53 significant bits, exponents from -1022
  (below which the spacing stays that of the subnormal numbers) and an infinity from
  \<open>2 ^ 1024\<close> on.
\<close>

function bit_length :: "int \<Rightarrow> nat" where
  "bit_length n = (if n \<le> 0 then 0 else Suc (bit_length (n div 2)))"
  by pat_completeness auto
termination
  by (relation "measure nat") auto

declare bit_length.simps [simp del]

definition pow2 :: "int \<Rightarrow> rat" where
  "pow2 e = (if 0 \<le> e then 2 ^ nat e else 1 / 2 ^ nat (- e))"

definition binade :: "rat \<Rightarrow> int" where
  "binade q =
     (if 1 \<le> q then int (bit_length \<lfloor>q\<rfloor>) - 1
      else
        (let k = int (bit_length \<lfloor>1 / q\<rfloor>) - 1
         in if q = pow2 (- k) then - k else - k - 1))"

definition round_half_even :: "rat \<Rightarrow> int" where
  "round_half_even q =
     (let n = \<lfloor>q\<rfloor>; d = q - of_int n
      in if d < 1 / 2 then n else if 1 / 2 < d then n + 1 else if even n then n else n + 1)"

definition binary64 :: "rat \<Rightarrow> jsnumber" where
  "binary64 q =
     (if q = 0 then Fin 0
      else
        (let e = max (binade \<bar>q\<bar>) (- 1022);
             ulp = pow2 (e - 52);
             r = of_int (round_half_even (\<bar>q\<bar> / ulp)) * ulp
         in if pow2 1024 \<le> r then (if q < 0 then NegInfinity else PosInfinity)
            else Fin (if q < 0 then - r else r)))"

text \<open>The conversion to a boolean: a number is false when its double is zero.\<close>

fun truthy :: "jsval \<Rightarrow> bool" where
  "truthy None = False"
| "truthy (Some JNull) = False"
| "truthy (Some (JBool b)) = b"
| "truthy (Some (JNum neg m d)) = (binary64 (of_nat m / 10 ^ d) \<noteq> Fin 0)"
| "truthy (Some (JStr s)) = (s \<noteq> [])"
| "truthy (Some v) = True"

text \<open>
  The quotient of two byte counts. A byte count is an integer below \<open>2 ^ 53\<close>, which a
  double holds exactly.
\<close>

definition divide_nat :: "nat \<Rightarrow> nat \<Rightarrow> jsnumber" where
  "divide_nat a b =
     (if b = 0 then (if a = 0 then NaN else PosInfinity) else binary64 (of_nat a / of_nat b))"

text \<open>
  Division of a byte count by a value read from a decoded payload. A number of the
  payload is the double nearest to its decimal numeral.
\<close>

fun divide_by :: "nat \<Rightarrow> jsval \<Rightarrow> jsnumber" where
  "divide_by a None = NaN"
| "divide_by a (Some JNull) = divide_nat a 0"
| "divide_by a (Some (JBool b)) = divide_nat a (if b then 1 else 0)"
| "divide_by a (Some (JNum neg m d)) =
     (case binary64 (of_nat m / 10 ^ d) of
        Fin s \<Rightarrow>
          if s = 0 then (if a = 0 then NaN else if neg then NegInfinity else PosInfinity)
          else binary64 ((if neg then - 1 else 1) * (of_nat a / s))
      | _ \<Rightarrow> Fin 0)"
| "divide_by a (Some v) = Coerced v"

fun multiply :: "jsnumber \<Rightarrow> rat \<Rightarrow> jsnumber" where
  "multiply (Fin q) k = binary64 (q * k)"
| "multiply x k = x"

text \<open>
  \<open>Math.round\<close> gives the integer nearest to its argument, the upper one at a tie; it is
  exact on a double.
\<close>

fun Math_round :: "jsnumber \<Rightarrow> jsnumber" where
  "Math_round (Fin q) = Fin (of_int \<lfloor>q + 1 / 2\<rfloor>)"
| "Math_round x = x"

section \<open>The application\<close>

text \<open>
  The component \<open>App\<close> of the source: its state variables (\<open>file\<close> is \<open>the_file\<close>
  here, \<open>file\<close> being a keyword), its refs, the fragment of the location, the
  \<open>offerPayload\<close> slot of the local storage, and the calls it has made on objects of the
  platform, in order. A download URL is represented by the bytes of its blob.
\<close>

datatype AppState =
    Idle | GeneratingOffer | AwaitingAnswer | ProcessingOffer | AwaitingPassword
  | GeneratingAnswer | Connecting | Transferring | TransferComplete | Error

record File =
  name :: jsstring
  contents :: "byte list"

record FileInfo =
  info_name :: jsval
  info_size :: jsval

datatype message = Binary "byte list" | Text jsstring

datatype effect = Send message | ClosePeerConnection | CloseDataChannel | RevokeObjectURL

record PeerConnection =
  remoteDescription :: "jsval option"
  localDescription :: bool

datatype DataChannel = DataChannel

record app =
  appState :: AppState
  the_file :: "File option"
  password :: jsstring
  error :: "string option"
  offer :: "jsstring option"
  isCopied :: bool
  progress :: jsnumber
  transferredBytes :: nat
  receivedFileInfo :: "FileInfo option"
  receivedFileChunks :: "byte list list"
  downloadUrl :: "byte list option"
  peerConnection :: "PeerConnection option"
  dataChannel :: "DataChannel option"
  hash :: jsstring
  localStorage :: "jsstring option"
  effects :: "effect list"

definition CHUNK_SIZE :: nat where
  "CHUNK_SIZE = 16384"

definition initial :: app where
  "initial =
     \<lparr>appState = Idle, the_file = None, password = [], error = None, offer = None,
      isCopied = False, progress = Fin 0, transferredBytes = 0, receivedFileInfo = None,
      receivedFileChunks = [], downloadUrl = None, peerConnection = None,
      dataChannel = None, hash = [], localStorage = None, effects = []\<rparr>"

text \<open>
  A function of the component body reads the state variables of the render that created
  it and writes through the setters and the refs. Where a function of the model takes a
  render \<open>r\<close> and a state \<open>st\<close>, the reads of state variables go to \<open>r\<close> and everything
  else to \<open>st\<close>.
\<close>

subsection \<open>resetState\<close>

text \<open>Lines 26 to 44 of the source.\<close>

definition resetState :: "app \<Rightarrow> app" where
  "resetState st =
     st\<lparr>appState := Idle, the_file := None, password := [], error := None, offer := None,
        isCopied := False, progress := Fin 0, transferredBytes := 0,
        receivedFileInfo := None, receivedFileChunks := [], downloadUrl := None,
        peerConnection := None, dataChannel := None, hash := [],
        effects := effects st @
          (if downloadUrl st \<noteq> None then [RevokeObjectURL] else []) @
          (if peerConnection st \<noteq> None then [ClosePeerConnection] else []) @
          (if dataChannel st \<noteq> None then [CloseDataChannel] else [])\<rparr>"

subsection \<open>The handshake token\<close>

text \<open>
  The payload of lines 61 to 70, with its encoding, and the decoding of lines 177 and
  207. \<open>hashPassword\<close> is imported from a module that is not among the sources; the functions
  that use it take it as the parameter \<open>H\<close>. \<open>ld\<close> is the JSON form of the local
  description of the peer connection.
\<close>

text \<open>The JSON form of a session description: its \<open>type\<close> and its \<open>sdp\<close> text.\<close>

definition sessionDescription :: "jsstring \<Rightarrow> jsstring \<Rightarrow> json" where
  "sessionDescription t d = JObj [(js ''type'', JStr t), (js ''sdp'', JStr d)]"

definition offerPayload :: "(jsstring \<Rightarrow> jsstring) \<Rightarrow> json \<Rightarrow> File \<Rightarrow> jsstring \<Rightarrow> json" where
  "offerPayload H ld f pw =
     JObj ([(js ''sdp'', ld), (js ''fileName'', JStr (name f)),
            (js ''fileSize'', JNum False (length (contents f)) 0)] @
           (if pw \<noteq> [] then [(js ''passwordHash'', JStr (H pw))] else []))"

definition encodeOffer :: "(jsstring \<Rightarrow> jsstring) \<Rightarrow> json \<Rightarrow> File \<Rightarrow> jsstring \<Rightarrow> exn + jsstring" where
  "encodeOffer H ld f pw = btoa (JSON_stringify (offerPayload H ld f pw))"

definition decodeToken :: "jsstring \<Rightarrow> exn + json" where
  "decodeToken s = (case atob s of Inl e \<Rightarrow> Inl e | Inr t \<Rightarrow> JSON_parse t)"

text \<open>
  The handler of \<open>icecandidate\<close> for the candidate \<open>null\<close>. An exception of \<open>btoa\<close> is not
  caught by the source.
\<close>

definition onicecandidate :: "(jsstring \<Rightarrow> jsstring) \<Rightarrow> app \<Rightarrow> json \<Rightarrow> app \<Rightarrow> exn + app" where
  "onicecandidate H r ld st =
     (if appState r = GeneratingOffer then
        (case the_file r of
           None \<Rightarrow> Inl TypeError
         | Some f \<Rightarrow>
             (case encodeOffer H ld f (password r) of
                Inl e \<Rightarrow> Inl e
              | Inr encodedOffer \<Rightarrow> Inr (st\<lparr>offer := Some encodedOffer, appState := AwaitingAnswer\<rparr>)))
      else if appState r = GeneratingAnswer then
        (case btoa (JSON_stringify ld) of
           Inl e \<Rightarrow> Inl e
         | Inr encodedAnswer \<Rightarrow> Inr (st\<lparr>offer := Some encodedAnswer\<rparr>))
      else Inr st)"

subsection \<open>The transport\<close>

text \<open>
  Lines 82 to 89 and 188 to 201 of the source.
  What the peer connection does with a remote description is outside the program: the
  parameter \<open>tr\<close> says, for a description, which of the awaited calls of \<open>processOffer\<close>
  throws, if any.
\<close>

datatype negotiation = RemoteRejected | AnswerFailed | LocalRejected | Negotiated

datatype connectionState = New | ConnectingState | Connected | Disconnected | Failed | Closed

definition onconnectionstatechange :: "connectionState \<Rightarrow> app \<Rightarrow> app" where
  "onconnectionstatechange cs st =
     (if cs = Connected then st\<lparr>appState := Transferring\<rparr>
      else if cs = Failed \<or> cs = Disconnected then
        st\<lparr>error := Some ''Connection failed. Please try again.'', appState := Error\<rparr>
      else st)"

definition createPeerConnection :: "app \<Rightarrow> app" where
  "createPeerConnection st =
     st\<lparr>peerConnection := Some \<lparr>remoteDescription = None, localDescription = False\<rparr>\<rparr>"

definition processOffer_failed :: "app \<Rightarrow> app" where
  "processOffer_failed st =
     st\<lparr>error := Some ''Failed to process transmission. The link might be invalid.'',
        appState := Error\<rparr>"

definition processOffer :: "(jsval \<Rightarrow> negotiation) \<Rightarrow> json \<Rightarrow> app \<Rightarrow> app" where
  "processOffer tr payload st =
     (case (getProp payload (js ''fileName''), getProp payload (js ''fileSize''),
            getProp payload (js ''sdp'')) of
        (Inr n, Inr sz, Inr d) \<Rightarrow>
          (let st1 = createPeerConnection
                       (st\<lparr>receivedFileInfo := Some \<lparr>info_name = n, info_size = sz\<rparr>\<rparr>);
               remote = st1\<lparr>peerConnection :=
                              Some \<lparr>remoteDescription = Some d, localDescription = False\<rparr>\<rparr>
           in case tr d of
                RemoteRejected \<Rightarrow> processOffer_failed st1
              | AnswerFailed \<Rightarrow> processOffer_failed remote
              | LocalRejected \<Rightarrow> processOffer_failed remote
              | Negotiated \<Rightarrow>
                  remote\<lparr>peerConnection :=
                           Some \<lparr>remoteDescription = Some d, localDescription = True\<rparr>,
                         appState := GeneratingAnswer\<rparr>)
      | _ \<Rightarrow> processOffer_failed st)"

subsection \<open>The effect on the fragment, and the secret\<close>

text \<open>
  Lines 203 to 220, 222 to 237 and 175 to 186 of the source. In \<open>handleConnect\<close> the
  transport is asked only whether it rejects the remote description.
\<close>

definition useEffect :: "(jsval \<Rightarrow> negotiation) \<Rightarrow> app \<Rightarrow> app" where
  "useEffect tr st =
     (if hash st \<noteq> [] \<and> appState st = Idle then
        (case decodeToken (hash st) of
           Inl e \<Rightarrow> st\<lparr>error := Some ''Invalid transmission link.'', appState := Error\<rparr>
         | Inr payload \<Rightarrow>
             (case getProp payload (js ''passwordHash'') of
                Inl e \<Rightarrow> st\<lparr>error := Some ''Invalid transmission link.'', appState := Error\<rparr>
              | Inr h \<Rightarrow>
                  if truthy h then
                    st\<lparr>localStorage := Some (JSON_stringify payload),
                       appState := AwaitingPassword\<rparr>
                  else processOffer tr payload (st\<lparr>appState := ProcessingOffer\<rparr>)))
      else st)"

text \<open>
  Lines 222 to 237. The test \<open>!payloadStr\<close> holds for an absent item and for the empty
  string. \<open>handlePasswordSubmit\<close> has no handler for an exception of \<open>JSON.parse\<close> or of
  the property read: the result is then the exception.
\<close>

definition payload_not_found :: "app \<Rightarrow> app" where
  "payload_not_found st =
     st\<lparr>error := Some ''Transmission data not found. Please use the original link.'',
        appState := Error\<rparr>"

definition handlePasswordSubmit ::
  "(jsstring \<Rightarrow> jsstring) \<Rightarrow> (jsval \<Rightarrow> negotiation) \<Rightarrow> jsstring \<Rightarrow> app \<Rightarrow> exn + app" where
  "handlePasswordSubmit H tr pass st =
     (case localStorage st of
        None \<Rightarrow> Inr (payload_not_found st)
      | Some payloadStr \<Rightarrow>
          if payloadStr = [] then Inr (payload_not_found st)
          else
            (case JSON_parse payloadStr of
               Inl e \<Rightarrow> Inl e
             | Inr payload \<Rightarrow>
                 (case getProp payload (js ''passwordHash'') of
                    Inl e \<Rightarrow> Inl e
                  | Inr h \<Rightarrow>
                      if Some (JStr (H pass)) = h then
                        Inr (processOffer tr payload (st\<lparr>localStorage := None\<rparr>))
                      else Inr (st\<lparr>error := Some ''Incorrect secret code.''\<rparr>))))"

definition handleConnect :: "(jsval \<Rightarrow> negotiation) \<Rightarrow> jsstring \<Rightarrow> app \<Rightarrow> app" where
  "handleConnect tr answerStr st =
     (case decodeToken answerStr of
        Inl e \<Rightarrow> st\<lparr>error := Some ''Invalid counter-signal format. Please try again.''\<rparr>
      | Inr answer \<Rightarrow>
          (case peerConnection st of
             None \<Rightarrow> st
           | Some pc \<Rightarrow>
               if tr (Some answer) = RemoteRejected then
                 st\<lparr>error := Some ''Invalid counter-signal format. Please try again.''\<rparr>
               else
                 st\<lparr>peerConnection := Some (pc\<lparr>remoteDescription := Some (Some answer)\<rparr>),
                    appState := Connecting\<rparr>))"

subsection \<open>The transfer\<close>

definition doneMessage :: jsstring where
  "doneMessage = JSON_stringify (JObj [(js ''type'', JStr (js ''done''))])"

text \<open>
  Lines 101 to 159 of the source.
  \<open>readSlice opn f offset st\<close> is the read of the slice at \<open>offset\<close> together with the
  \<open>onload\<close> handler that its completion runs, which sends the chunk and starts the next
  read. \<open>opn offset\<close> says whether the channel is open when the read at \<open>offset\<close>
  completes.
\<close>

function readSlice :: "(nat \<Rightarrow> bool) \<Rightarrow> File \<Rightarrow> nat \<Rightarrow> app \<Rightarrow> app" where
  "readSlice opn f offset st =
     (let chunk = take CHUNK_SIZE (drop offset (contents f)) in
      if dataChannel st \<noteq> None \<and> opn offset then
        (let offset' = offset + length chunk;
             st1 = st\<lparr>effects := effects st @ [Send (Binary chunk)],
                      transferredBytes := offset',
                      progress := Math_round (multiply (divide_nat offset' (length (contents f))) 100)\<rparr>
         in if offset' < length (contents f) then readSlice opn f offset' st1
            else st1\<lparr>effects := effects st1 @ [Send (Text doneMessage)],
                     appState := TransferComplete\<rparr>)
      else st)"
  by pat_completeness auto
termination
  by (relation "measure (\<lambda>(opn, f, offset, st). length (contents f) - offset)")
     (auto simp: CHUNK_SIZE_def)

declare readSlice.simps [simp del]

definition sendFileInChunks :: "(nat \<Rightarrow> bool) \<Rightarrow> app \<Rightarrow> app \<Rightarrow> app" where
  "sendFileInChunks opn r st =
     (case the_file r of
        None \<Rightarrow> st
      | Some f \<Rightarrow> if dataChannel st = None then st else readSlice opn f 0 st)"

definition onopen :: "(nat \<Rightarrow> bool) \<Rightarrow> app \<Rightarrow> app \<Rightarrow> app" where
  "onopen opn r st =
     (if the_file r \<noteq> None then sendFileInChunks opn r (st\<lparr>appState := Transferring\<rparr>) else st)"

definition onmessage :: "app \<Rightarrow> message \<Rightarrow> app \<Rightarrow> app" where
  "onmessage r msg st =
     (case msg of
        Text data \<Rightarrow>
          (case JSON_parse data of
             Inl e \<Rightarrow> st
           | Inr m \<Rightarrow>
               (case getProp m (js ''type'') of
                  Inl e \<Rightarrow> st
                | Inr t \<Rightarrow>
                    if t = Some (JStr (js ''done'')) then
                      st\<lparr>downloadUrl := Some (concat (receivedFileChunks r)),
                         appState := TransferComplete\<rparr>
                    else st))
      | Binary data \<Rightarrow>
          (let newTransferred = transferredBytes r + length data;
               st1 = st\<lparr>receivedFileChunks := receivedFileChunks st @ [data],
                        transferredBytes := newTransferred\<rparr>
           in case receivedFileInfo r of
                None \<Rightarrow> st1
              | Some info \<Rightarrow>
                  st1\<lparr>progress := Math_round (multiply (divide_by newTransferred (info_size info)) 100)\<rparr>))"

text \<open>
  The handler is installed once, by \<open>setupDataChannel\<close>, so one render \<open>r\<close> serves all
  the messages of a channel.
\<close>

text \<open>
  The classification of a text message that \<open>onmessage\<close> makes: the text parses and the
  value has the property \<open>type\<close> with the string \<open>done\<close>.
\<close>

definition isDoneMessage :: "jsstring \<Rightarrow> bool" where
  "isDoneMessage data =
     (case JSON_parse data of
        Inl e \<Rightarrow> False
      | Inr m \<Rightarrow> getProp m (js ''type'') = Inr (Some (JStr (js ''done''))))"

definition receive :: "app \<Rightarrow> message list \<Rightarrow> app \<Rightarrow> app" where
  "receive r msgs st = foldl (\<lambda>s m. onmessage r m s) st msgs"

definition sent :: "app \<Rightarrow> message list" where
  "sent st = concat (map (\<lambda>e. case e of Send m \<Rightarrow> [m] | _ \<Rightarrow> []) (effects st))"

section \<open>The arithmetic of the progress\<close>

lemma floor_rat_numeral: "\<lfloor>(numeral a :: rat) / numeral b\<rfloor> = numeral a div numeral b"
  using floor_divide_of_int_eq [of "numeral a" "numeral b", where ?'a = rat] by simp

lemma bit_length_numeral:
  "bit_length (numeral (Num.Bit0 n)) = Suc (bit_length (numeral n))"
  "bit_length (numeral (Num.Bit1 n)) = Suc (bit_length (numeral n))"
  "bit_length 1 = 1" "bit_length 0 = 0"
  by (subst bit_length.simps, simp)+

lemma binade_23_40: "binade (23 / 40) = - 1"
  by (simp add: binade_def floor_rat_numeral bit_length_numeral pow2_def)

lemma binary64_23_40: "binary64 (23 / 40) = Fin (2589569785738035 / 4503599627370496)"
  by (simp add: binary64_def binade_23_40 pow2_def round_half_even_def floor_rat_numeral Let_def)

lemma binade_product: "binade (64739244643450875 / 1125899906842624) = 5"
  by (simp add: binade_def floor_rat_numeral bit_length_numeral pow2_def)

lemma binary64_product:
  "binary64 (64739244643450875 / 1125899906842624) = Fin (8092405580431359 / 140737488355328)"
  by (simp add: binary64_def binade_product pow2_def round_half_even_def floor_rat_numeral Let_def)

text \<open>
  The percentage is rounded from doubles: 23 bytes of 40 are 57.5 percent, but the
  quotient is the double just below 0.575 and its product with 100 the double just
  below 57.5, so the progress is 57.
\<close>

lemma progress_23_of_40: "Math_round (multiply (divide_nat 23 40) 100) = Fin 57"
  using binary64_product by (simp add: divide_nat_def binary64_23_40 floor_rat_numeral)

section \<open>The sender\<close>

lemma sent_Send: "sent (st\<lparr>effects := effects st @ [Send m]\<rparr>) = sent st @ [m]"
  by (simp add: sent_def)

lemma readSlice_open:
  assumes "dataChannel st \<noteq> None" and "opn offset"
  shows "readSlice opn f offset st =
     (if offset + length (take CHUNK_SIZE (drop offset (contents f))) < length (contents f)
      then readSlice opn f (offset + length (take CHUNK_SIZE (drop offset (contents f))))
             (st\<lparr>effects := effects st @ [Send (Binary (take CHUNK_SIZE (drop offset (contents f))))],
                transferredBytes := offset + length (take CHUNK_SIZE (drop offset (contents f))),
                progress := Math_round (multiply (divide_nat (offset + length (take CHUNK_SIZE (drop offset (contents f)))) (length (contents f))) 100)\<rparr>)
      else st\<lparr>effects := effects st @ [Send (Binary (take CHUNK_SIZE (drop offset (contents f)))), Send (Text doneMessage)],
              transferredBytes := offset + length (take CHUNK_SIZE (drop offset (contents f))),
              progress := Math_round (multiply (divide_nat (offset + length (take CHUNK_SIZE (drop offset (contents f)))) (length (contents f))) 100),
              appState := TransferComplete\<rparr>)"
  using assms by (subst readSlice.simps) (simp add: Let_def)

lemma readSlice_sent:
  assumes "dataChannel st \<noteq> None" and "opn = (\<lambda>k. True)"
  shows "\<exists>fs. sent (readSlice opn f offset st) = sent st @ map Binary fs @ [Text doneMessage] \<and>
           concat fs = drop offset (contents f) \<and> fs \<noteq> [] \<and>
           list_all (\<lambda>b. length b = CHUNK_SIZE) (butlast fs) \<and> length (last fs) \<le> CHUNK_SIZE \<and>
           (offset < length (contents f) \<longrightarrow> last fs \<noteq> [])"
  using assms
proof (induction opn f offset st rule: readSlice.induct)
  case (1 opn f offset st)
  define chunk where "chunk = take CHUNK_SIZE (drop offset (contents f))"
  define st1 where "st1 = st\<lparr>effects := effects st @ [Send (Binary chunk)],
                transferredBytes := offset + length chunk,
                progress := Math_round (multiply (divide_nat (offset + length chunk) (length (contents f))) 100)\<rparr>"
  have dc: "dataChannel st \<noteq> None" and op: "opn offset" and opn: "opn = (\<lambda>k. True)"
    using "1.prems" by auto
  show ?case
  proof (cases "offset + length chunk < length (contents f)")
    case True
    have full: "length chunk = CHUNK_SIZE"
      using True by (auto simp: chunk_def min_def split: if_splits)
    have step: "readSlice opn f offset st = readSlice opn f (offset + length chunk) st1"
      using True by (simp add: readSlice_open [where st=st and opn=opn and offset=offset and f=f, OF dc op] chunk_def st1_def)
    have "\<exists>fs. sent (readSlice opn f (offset + length chunk) st1) =
             sent st1 @ map Binary fs @ [Text doneMessage] \<and>
             concat fs = drop (offset + length chunk) (contents f) \<and> fs \<noteq> [] \<and>
             list_all (\<lambda>b. length b = CHUNK_SIZE) (butlast fs) \<and> length (last fs) \<le> CHUNK_SIZE \<and>
           (offset < length (contents f) \<longrightarrow> last fs \<noteq> [])"
      using "1.IH" [of chunk "offset + length chunk" st1] dc op opn True
      by (simp add: chunk_def st1_def)
    then obtain fs where fs: "sent (readSlice opn f (offset + length chunk) st1) =
             sent st1 @ map Binary fs @ [Text doneMessage]"
        "concat fs = drop (offset + length chunk) (contents f)" "fs \<noteq> []"
        "list_all (\<lambda>b. length b = CHUNK_SIZE) (butlast fs)" "length (last fs) \<le> CHUNK_SIZE"
        "last fs \<noteq> []"
      using True by auto
    have s1: "sent st1 = sent st @ [Binary chunk]"
      by (simp add: st1_def sent_def)
    have cc: "chunk @ drop (offset + length chunk) (contents f) = drop offset (contents f)"
      unfolding full unfolding chunk_def
      by (metis add.commute append_take_drop_id drop_drop)
    show ?thesis
      apply (rule exI [of _ "chunk # fs"])
      using fs full cc by (simp add: step s1)
  next
    case False
    have step: "readSlice opn f offset st =
        st\<lparr>effects := effects st @ [Send (Binary chunk), Send (Text doneMessage)],
           transferredBytes := offset + length chunk,
           progress := Math_round (multiply (divide_nat (offset + length chunk) (length (contents f))) 100),
           appState := TransferComplete\<rparr>"
      using False by (simp add: readSlice_open [where st=st and opn=opn and offset=offset and f=f, OF dc op] chunk_def)
    have all: "chunk = drop offset (contents f)"
      using False by (auto simp: chunk_def min_def split: if_splits)
    have le: "length chunk \<le> CHUNK_SIZE"
      by (simp add: chunk_def)
    show ?thesis
      apply (rule exI [of _ "[chunk]"])
      using all le by (simp add: step sent_def)
  qed
qed

lemma length_concat_uniform:
  "list_all (\<lambda>b. length b = n) xs \<Longrightarrow> length (concat xs) = n * length xs"
  by (induction xs) simp_all

lemma frames_count:
  assumes "concat fs = xs" and "fs \<noteq> []" and "list_all (\<lambda>b. length b = n) (butlast fs)"
    and "length (last fs) \<le> n" and "last fs \<noteq> []"
  shows "length fs = (length xs + n - 1) div n"
proof -
  define k where "k = length (butlast fs)"
  define l where "l = length (last fs)"
  have l: "0 < l" "l \<le> n"
    using assms by (simp_all add: l_def)
  have "fs = butlast fs @ [last fs]"
    using assms(2) by simp
  then have "concat fs = concat (butlast fs) @ last fs"
    by (metis concat.simps(1) concat.simps(2) concat_append append_Nil2)
  then have len: "length xs = n * k + l"
    using assms(1) length_concat_uniform [OF assms(3)] by (simp add: k_def l_def)
  have kk: "length fs = k + 1"
    using assms(2) by (simp add: k_def)
  obtain l' where l': "l = Suc l'"
    using l by (cases l) auto
  have "length xs + n - 1 = l' + (k + 1) * n"
    by (simp add: len l' algebra_simps)
  moreover have "l' < n"
    using l l' by simp
  ultimately have "(length xs + n - 1) div n = k + 1"
    using div_mult_self1 [of n l' "k + 1"] by (simp add: ac_simps)
  then show ?thesis
    by (simp add: kk)
qed

lemma readSlice_40000:
  assumes "dataChannel st \<noteq> None" and "length (contents f) = 40000"
  shows "sent (readSlice (\<lambda>k. True) f 0 st) =
     sent st @ [Binary (take 16384 (contents f)), Binary (take 16384 (drop 16384 (contents f))),
                Binary (drop 32768 (contents f)), Text doneMessage]"
  using assms by (simp add: readSlice_open CHUNK_SIZE_def sent_def)

text \<open>
  The counter of the sender: the value written after a frame is the offset plus the
  length of the frame, which is not below the offset and not above the size of the file,
  and the transfer ends with the counter at the size of the file.
\<close>

lemma readSlice_counter_step:
  "offset \<le> offset + length (take CHUNK_SIZE (drop offset (contents f))) \<and>
   (offset \<le> length (contents f) \<longrightarrow>
      offset + length (take CHUNK_SIZE (drop offset (contents f))) \<le> length (contents f))"
  by (auto simp: min_def)

lemma readSlice_complete:
  assumes "dataChannel st \<noteq> None" and "opn = (\<lambda>k. True)" and "offset \<le> length (contents f)"
  shows "transferredBytes (readSlice opn f offset st) = length (contents f) \<and>
         appState (readSlice opn f offset st) = TransferComplete"
  using assms
proof (induction opn f offset st rule: readSlice.induct)
  case (1 opn f offset st)
  define chunk where "chunk = take CHUNK_SIZE (drop offset (contents f))"
  define st1 where "st1 = st\<lparr>effects := effects st @ [Send (Binary chunk)],
                transferredBytes := offset + length chunk,
                progress := Math_round (multiply (divide_nat (offset + length chunk) (length (contents f))) 100)\<rparr>"
  have dc: "dataChannel st \<noteq> None" and op: "opn offset" and opn: "opn = (\<lambda>k. True)"
      and le: "offset \<le> length (contents f)"
    using "1.prems" by auto
  show ?case
  proof (cases "offset + length chunk < length (contents f)")
    case True
    have step: "readSlice opn f offset st = readSlice opn f (offset + length chunk) st1"
      using True
      by (simp add: readSlice_open [where st=st and opn=opn and offset=offset and f=f, OF dc op]
          chunk_def st1_def)
    have "transferredBytes (readSlice opn f (offset + length chunk) st1) = length (contents f) \<and>
         appState (readSlice opn f (offset + length chunk) st1) = TransferComplete"
      using "1.IH" [of chunk "offset + length chunk" st1] dc op opn True
      by (simp add: chunk_def st1_def)
    then show ?thesis by (simp add: step)
  next
    case False
    have step: "readSlice opn f offset st =
        st\<lparr>effects := effects st @ [Send (Binary chunk), Send (Text doneMessage)],
           transferredBytes := offset + length chunk,
           progress := Math_round (multiply (divide_nat (offset + length chunk) (length (contents f))) 100),
           appState := TransferComplete\<rparr>"
      using False
      by (simp add: readSlice_open [where st=st and opn=opn and offset=offset and f=f, OF dc op]
          chunk_def)
    have "offset + length chunk = length (contents f)"
      using False le by (auto simp: chunk_def min_def split: if_splits)
    then show ?thesis by (simp add: step)
  qed
qed

text \<open>
  Claim C2. With the channel open at the completion of every read, the messages that
  \<open>sendFileInChunks\<close> sends for a file are binary frames followed by exactly one control
  message. Every frame but the last has exactly 16384 bytes, the last has at most
  16384, and their concatenation in the order sent is the content of the file. A file
  of no bytes gives one empty frame; for any other file the last frame is not empty and
  the number of frames is the size divided by 16384, rounded up. A file of 40000 bytes
  gives frames of 16384, 16384 and 7232 bytes.
\<close>

theorem sendFileInChunks_frames:
  assumes "the_file r = Some f" and "dataChannel st \<noteq> None"
  shows "\<exists>fs. sent (sendFileInChunks (\<lambda>k. True) r st) = sent st @ map Binary fs @ [Text doneMessage] \<and>
           concat fs = contents f \<and> fs \<noteq> [] \<and>
           list_all (\<lambda>b. length b = CHUNK_SIZE) (butlast fs) \<and> length (last fs) \<le> CHUNK_SIZE \<and>
           CHUNK_SIZE = 16384 \<and>
           (contents f = [] \<longrightarrow> fs = [[]]) \<and>
           (contents f \<noteq> [] \<longrightarrow>
              last fs \<noteq> [] \<and>
              length fs = (length (contents f) + CHUNK_SIZE - 1) div CHUNK_SIZE) \<and>
           (length (contents f) = 40000 \<longrightarrow> map length fs = [16384, 16384, 7232])"
proof -
  have run: "sendFileInChunks (\<lambda>k. True) r st = readSlice (\<lambda>k. True) f 0 st"
    using assms by (auto simp: sendFileInChunks_def)
  obtain fs where fs: "sent (readSlice (\<lambda>k. True) f 0 st) = sent st @ map Binary fs @ [Text doneMessage]"
      "concat fs = drop 0 (contents f)" "fs \<noteq> []"
      "list_all (\<lambda>b. length b = CHUNK_SIZE) (butlast fs)" "length (last fs) \<le> CHUNK_SIZE"
      "0 < length (contents f) \<longrightarrow> last fs \<noteq> []"
    using readSlice_sent [OF assms(2) refl, of f 0] by blast
  have empty: "fs = [[]]" if "contents f = []"
  proof -
    have "concat fs = []" using fs(2) that by simp
    then have "\<forall>b\<in>set fs. b = []" by simp
    moreover have "butlast fs = []"
    proof (rule ccontr)
      assume "butlast fs \<noteq> []"
      then obtain b where b: "b \<in> set (butlast fs)"
        by (cases "butlast fs") auto
      then have "length b = CHUNK_SIZE"
        using fs(4) by (simp add: list_all_iff)
      moreover have "b = []"
        using b \<open>\<forall>b\<in>set fs. b = []\<close> in_set_butlastD by fastforce
      ultimately show False by (simp add: CHUNK_SIZE_def)
    qed
    ultimately show ?thesis
      using fs(3) by (cases fs) (auto split: if_splits)
  qed
  have count: "last fs \<noteq> [] \<and> length fs = (length (contents f) + CHUNK_SIZE - 1) div CHUNK_SIZE"
    if "contents f \<noteq> []"
  proof -
    have l: "last fs \<noteq> []" using fs(6) that by simp
    from frames_count [OF _ fs(3) fs(4) fs(5) l, of "contents f"] fs(2) l
    show ?thesis by simp
  qed
  have "map length fs = [16384, 16384, 7232]" if len: "length (contents f) = 40000"
  proof -
    have "map Binary fs = [Binary (take 16384 (contents f)), Binary (take 16384 (drop 16384 (contents f))),
                Binary (drop 32768 (contents f))]"
      using fs(1) readSlice_40000 [OF assms(2) len] by simp
    then have "fs = [take 16384 (contents f), take 16384 (drop 16384 (contents f)), drop 32768 (contents f)]"
      by (auto simp: map_eq_Cons_conv)
    then show ?thesis using len by simp
  qed
  with fs empty count show ?thesis
    unfolding run by (intro exI [of _ fs]) (simp add: CHUNK_SIZE_def)
qed

theorem sendFileInChunks_frames_witness:
  "the_file (initial\<lparr>the_file := Some \<lparr>name = js ''a'', contents = replicate 40000 0\<rparr>\<rparr>) =
     Some \<lparr>name = js ''a'', contents = replicate 40000 0\<rparr> \<and>
   dataChannel (initial\<lparr>dataChannel := Some DataChannel\<rparr>) \<noteq> None \<and>
   (\<exists>fs. sent (sendFileInChunks (\<lambda>k. True)
                 (initial\<lparr>the_file := Some \<lparr>name = js ''a'', contents = replicate 40000 0\<rparr>\<rparr>)
                 (initial\<lparr>dataChannel := Some DataChannel\<rparr>)) =
           map Binary fs @ [Text doneMessage] \<and>
         concat fs = replicate 40000 0 \<and> map length fs = [16384, 16384, 7232])"
proof -
  have a: "the_file (initial\<lparr>the_file := Some \<lparr>name = js ''a'', contents = replicate 40000 0\<rparr>\<rparr>) =
     Some \<lparr>name = js ''a'', contents = replicate 40000 0\<rparr>"
    by simp
  have b: "dataChannel (initial\<lparr>dataChannel := Some DataChannel\<rparr>) \<noteq> None"
    by simp
  have c: "sent (initial\<lparr>dataChannel := Some DataChannel\<rparr>) = []"
    by (simp add: sent_def initial_def)
  from sendFileInChunks_frames [OF a b] a b c show ?thesis
    by auto
qed

section \<open>The receiver\<close>

lemma tokenize_doneMessage:
  "tokenize doneMessage =
     Some [TLBrace, TString (js ''type''), TColon, TString (js ''done''), TRBrace]"
  by (simp add: doneMessage_def quoteJSON_def js_def cons_token_def cons_unit_def high_surrogate_def low_surrogate_def
      json_whitespace_def)

lemma parse_doneMessage: "JSON_parse doneMessage = Inr (JObj [(js ''type'', JStr (js ''done''))])"
  by (simp add: JSON_parse_def tokenize_doneMessage)

lemma isDoneMessage_doneMessage: "isDoneMessage doneMessage"
  by (simp add: isDoneMessage_def parse_doneMessage)

lemma onmessage_Text:
  "onmessage r (Text data) st =
     (if isDoneMessage data
      then st\<lparr>downloadUrl := Some (concat (receivedFileChunks r)), appState := TransferComplete\<rparr>
      else st)"
  by (simp add: onmessage_def isDoneMessage_def split: sum.splits)

lemma onmessage_Binary:
  "onmessage r (Binary b) st =
     (case receivedFileInfo r of
        None \<Rightarrow> st\<lparr>receivedFileChunks := receivedFileChunks st @ [b],
                  transferredBytes := transferredBytes r + length b\<rparr>
      | Some info \<Rightarrow>
          st\<lparr>receivedFileChunks := receivedFileChunks st @ [b],
             transferredBytes := transferredBytes r + length b,
             progress := Math_round (multiply (divide_by (transferredBytes r + length b) (info_size info)) 100)\<rparr>)"
  unfolding onmessage_def by (simp add: Let_def split: option.splits)

lemma receive_Nil: "receive r [] st = st"
  by (simp add: receive_def)

lemma receive_snoc: "receive r (ms @ [m]) st = onmessage r m (receive r ms st)"
  by (simp add: receive_def)

lemma receive_Cons: "receive r (m # ms) st = receive r ms (onmessage r m st)"
  by (simp add: receive_def)

lemma receive_frames:
  "receivedFileChunks (receive r (map Binary fs) st) = receivedFileChunks st @ fs \<and>
   appState (receive r (map Binary fs) st) = appState st \<and>
   downloadUrl (receive r (map Binary fs) st) = downloadUrl st \<and>
   error (receive r (map Binary fs) st) = error st"
proof (induction fs rule: rev_induct)
  case Nil
  show ?case by (simp add: receive_Nil)
next
  case (snoc b fs)
  then show ?case
    by (simp add: receive_snoc onmessage_Binary split: option.splits)
qed

lemma receive_counter:
  "transferredBytes (receive r (map Binary (fs @ [b])) st) = transferredBytes r + length b"
  by (simp add: receive_snoc onmessage_Binary split: option.splits)

text \<open>
  Sender and receiver together: the receiving state collects the content of the file in
  order and completes, and the download is made of the chunks of the render that
  installed the handler.
\<close>

lemma transfer_end_to_end:
  assumes "the_file r = Some f" and "dataChannel st \<noteq> None" and "sent st = []"
  shows "concat (receivedFileChunks (receive r' (sent (sendFileInChunks (\<lambda>k. True) r st)) st')) =
           concat (receivedFileChunks st') @ contents f \<and>
         appState (receive r' (sent (sendFileInChunks (\<lambda>k. True) r st)) st') = TransferComplete \<and>
         downloadUrl (receive r' (sent (sendFileInChunks (\<lambda>k. True) r st)) st') =
           Some (concat (receivedFileChunks r'))"
proof -
  have run: "sendFileInChunks (\<lambda>k. True) r st = readSlice (\<lambda>k. True) f 0 st"
    using assms by (auto simp: sendFileInChunks_def)
  obtain fs where fs: "sent (readSlice (\<lambda>k. True) f 0 st) = sent st @ map Binary fs @ [Text doneMessage]"
      "concat fs = drop 0 (contents f)"
    using readSlice_sent [OF assms(2) refl, of f 0] by blast
  have m: "sent (sendFileInChunks (\<lambda>k. True) r st) = map Binary fs @ [Text doneMessage]"
    using fs(1) assms(3) by (simp add: run)
  show ?thesis
    unfolding m
    using fs(2)
    by (simp add: receive_snoc onmessage_Text isDoneMessage_doneMessage receive_frames)
qed

text \<open>
  For a receiver (no file selected) that has not completed, neither the opening of the
  channel nor a change of the connection state completes the transfer, and a message
  completes it only if it is a text message that is a \<open>done\<close> message.
\<close>

lemma receiver_completes_only_on_done:
  assumes "the_file r = None" and "appState st \<noteq> TransferComplete"
  shows "appState (onopen opn r st) \<noteq> TransferComplete \<and>
         appState (onconnectionstatechange cs st) \<noteq> TransferComplete \<and>
         (appState (onmessage r msg st) = TransferComplete \<longrightarrow>
            (\<exists>data. msg = Text data \<and> isDoneMessage data))"
proof (intro conjI impI)
  show "appState (onopen opn r st) \<noteq> TransferComplete"
    using assms by (simp add: onopen_def)
  show "appState (onconnectionstatechange cs st) \<noteq> TransferComplete"
    using assms by (simp add: onconnectionstatechange_def)
next
  assume c: "appState (onmessage r msg st) = TransferComplete"
  show "\<exists>data. msg = Text data \<and> isDoneMessage data"
  proof (cases msg)
    case (Binary b)
    then show ?thesis
      using c assms by (simp add: onmessage_Binary split: option.splits)
  next
    case (Text data)
    then show ?thesis
      using c assms by (simp add: onmessage_Text split: if_splits)
  qed
qed

section \<open>The token: decoding what was encoded\<close>

lemma b64val_b64char: "i < 64 \<Longrightarrow> b64val (b64char i) = Some i"
  by auto

lemma b64char_not_pad: "i < 64 \<Longrightarrow> b64char i \<noteq> 61"
  by auto

lemma b64char_not_ws: "i < 64 \<Longrightarrow> \<not> ascii_whitespace (b64char i)"
  by (auto simp: ascii_whitespace_def)

lemma strip_padding_Cons4:
  "rest \<noteq> [] \<Longrightarrow> strip_padding (a # b # c # d # rest) = a # b # c # d # strip_padding rest"
proof -
  assume ne: "rest \<noteq> []"
  show ?thesis
  proof (cases "length rest mod 4 = 0")
    case True
    with ne have "4 \<le> length rest" by (cases rest) (auto simp: mod_Suc split: if_splits)
    then have b: "butlast rest \<noteq> []"
      by (cases rest) auto
    show ?thesis
      using ne b True by (simp add: strip_padding_def)
  next
    case False
    then show ?thesis
      using ne by (simp add: strip_padding_def)
  qed
qed

lemma sextet1_bound: "a < 256 \<Longrightarrow> a div 4 < (64::nat)"
  by simp

lemma sextet2_bound: "b < 256 \<Longrightarrow> a mod 4 * 16 + b div 16 < (64::nat)"
proof -
  assume "b < 256"
  then have "b div 16 < 16" by simp
  moreover have "a mod 4 < 4" by simp
  then have "a mod 4 * 16 \<le> 48" by linarith
  ultimately show ?thesis by linarith
qed

lemma sextet3_bound: "c < 256 \<Longrightarrow> b mod 16 * 4 + c div 64 < (64::nat)"
proof -
  assume "c < 256"
  then have "c div 64 < 4" by simp
  moreover have "b mod 16 < 16" by simp
  then have "b mod 16 * 4 \<le> 60" by linarith
  ultimately show ?thesis by linarith
qed

lemma sextet4_bound: "c mod 64 < (64::nat)" by simp

lemma sextet2_tail_bound: "a mod 4 * 16 < (64::nat)"
proof -
  have "a mod 4 < 4" by simp
  then show ?thesis by linarith
qed

lemma sextet3_tail_bound: "b mod 16 * 4 < (64::nat)"
proof -
  have "b mod 16 < 16" by simp
  then show ?thesis by linarith
qed

lemma octet1_of_sextets: "b < 256 \<Longrightarrow> a div 4 * 4 + (a mod 4 * 16 + b div 16) div 16 = (a::nat)"
proof -
  assume "b < 256"
  then have "b div 16 < 16" by simp
  then have "(a mod 4 * 16 + b div 16) div 16 = a mod 4"
    by simp
  then show ?thesis by simp
qed

lemma octet2_of_sextets:
  assumes "b < 256" and "c < 256"
  shows "(a mod 4 * 16 + b div 16) mod 16 * 16 + (b mod 16 * 4 + c div 64) div 4 = (b::nat)"
proof -
  have "c div 64 < 4" using assms by simp
  then have x: "(b mod 16 * 4 + c div 64) div 4 = b mod 16"
    by simp
  have "b div 16 < 16" using assms by simp
  then have y: "(a mod 4 * 16 + b div 16) mod 16 = b div 16"
    by simp
  show ?thesis unfolding x y by simp
qed

lemma octet3_of_sextets:
  assumes "c < 256"
  shows "(b mod 16 * 4 + c div 64) mod 4 * 64 + c mod 64 = (c::nat)"
proof -
  have "c div 64 < 4" using assms by simp
  then have x: "(b mod 16 * 4 + c div 64) mod 4 = c div 64"
    by simp
  show ?thesis unfolding x by simp
qed

lemma octet1_of_tail: "a div 4 * 4 + (a mod 4 * 16) div 16 = (a::nat)"
  by simp

lemma octet2_of_tail:
  assumes "b < 256"
  shows "(a mod 4 * 16 + b div 16) mod 16 * 16 + (b mod 16 * 4) div 4 = (b::nat)"
proof -
  have "b div 16 < 16" using assms by simp
  then have y: "(a mod 4 * 16 + b div 16) mod 16 = b div 16"
    by simp
  show ?thesis unfolding y by simp
qed

lemma b64_group_bounds:
  assumes "a < 256" and "b < 256" and "c < (256::nat)"
  shows "a div 4 < 64" and "a mod 4 * 16 + b div 16 < 64" and "b mod 16 * 4 + c div 64 < 64"
    and "c mod 64 < 64" and "a mod 4 * 16 < 64" and "b mod 16 * 4 < 64"
  using assms sextet1_bound [of a] sextet2_bound [of b a] sextet3_bound [of c b] sextet4_bound [of c] sextet2_tail_bound [of a] sextet3_tail_bound [of b] by blast+

lemma b64_group_decode:
  fixes a b c :: nat
  assumes "b < 256" and "c < 256"
  shows "a div 4 * 4 + (a mod 4 * 16 + b div 16) div 16 = a"
    and "(a mod 4 * 16 + b div 16) mod 16 * 16 + (b mod 16 * 4 + c div 64) div 4 = b"
    and "(b mod 16 * 4 + c div 64) mod 4 * 64 + c mod 64 = c"
  using assms octet1_of_sextets [of b a] octet2_of_sextets [of b c a] octet3_of_sextets [of c b] by blast+

lemma b64_tail_decode:
  fixes a b :: nat
  assumes "b < 256"
  shows "a div 4 * 4 + (a mod 4 * 16) div 16 = a"
    and "(a mod 4 * 16 + b div 16) mod 16 * 16 + (b mod 16 * 4) div 4 = b"
  using assms octet1_of_tail [of a] octet2_of_tail [of b a] by blast+

lemma b64enc_Nil_iff: "(b64enc s = []) = (s = [])"
  by (induction s rule: b64enc.induct) simp_all

lemma b64enc_decodes:
  "\<not> list_ex (\<lambda>c. 255 < c) s \<Longrightarrow> b64_decodes (strip_padding (b64enc s)) s \<and>
     \<not> list_ex ascii_whitespace (b64enc s)"
proof (induction s rule: b64enc.induct)
  case 1
  show ?case by (simp add: b64_decodes_def strip_padding_def)
next
  case (2 a)
  then have a: "a < 256" by simp
  have v: "b64val (b64char (a div 4)) = Some (a div 4)"
      "b64val (b64char (a mod 4 * 16)) = Some (a mod 4 * 16)"
    using b64_group_bounds [OF a a a] by (simp_all only: b64val_b64char)
  have w: "\<not> ascii_whitespace (b64char (a div 4))" "\<not> ascii_whitespace (b64char (a mod 4 * 16))"
    using b64_group_bounds [OF a a a] by (simp_all only: b64char_not_ws not_False_eq_True)
  have sp: "strip_padding (b64enc [a]) = [b64char (a div 4), b64char (a mod 4 * 16)]"
    by (simp add: strip_padding_def)
  show ?case
    unfolding sp
    using v w b64_tail_decode(1) [OF a]
    by (simp add: b64_decodes_def ascii_whitespace_def del: b64val.simps b64char.simps)
next
  case (3 a b)
  then have a: "a < 256" and b: "b < 256" by simp_all
  have v: "b64val (b64char (a div 4)) = Some (a div 4)"
      "b64val (b64char (a mod 4 * 16 + b div 16)) = Some (a mod 4 * 16 + b div 16)"
      "b64val (b64char (b mod 16 * 4)) = Some (b mod 16 * 4)"
    using b64_group_bounds [OF a b b] by (simp_all only: b64val_b64char)
  have w: "\<not> ascii_whitespace (b64char (a div 4))"
      "\<not> ascii_whitespace (b64char (a mod 4 * 16 + b div 16))"
      "\<not> ascii_whitespace (b64char (b mod 16 * 4))"
    using b64_group_bounds [OF a b b] by (simp_all only: b64char_not_ws not_False_eq_True)
  have np: "b64char (b mod 16 * 4) \<noteq> 61"
    using b64_group_bounds [OF a b b] by (simp only: b64char_not_pad not_False_eq_True)
  have sp: "strip_padding (b64enc [a, b]) =
      [b64char (a div 4), b64char (a mod 4 * 16 + b div 16), b64char (b mod 16 * 4)]"
    using np by (simp add: strip_padding_def del: b64char.simps)
  show ?case
    unfolding sp
    using v w b64_tail_decode [OF b] b
    by (simp add: b64_decodes_def ascii_whitespace_def del: b64val.simps b64char.simps)
next
  case (4 a b c r)
  then have a: "a < 256" and b: "b < 256" and c: "c < 256"
      and r: "\<not> list_ex (\<lambda>c. 255 < c) r"
    by simp_all
  have v: "b64val (b64char (a div 4)) = Some (a div 4)"
      "b64val (b64char (a mod 4 * 16 + b div 16)) = Some (a mod 4 * 16 + b div 16)"
      "b64val (b64char (b mod 16 * 4 + c div 64)) = Some (b mod 16 * 4 + c div 64)"
      "b64val (b64char (c mod 64)) = Some (c mod 64)"
    using b64_group_bounds [OF a b c] by (simp_all only: b64val_b64char)
  have w: "\<not> ascii_whitespace (b64char (a div 4))"
      "\<not> ascii_whitespace (b64char (a mod 4 * 16 + b div 16))"
      "\<not> ascii_whitespace (b64char (b mod 16 * 4 + c div 64))"
      "\<not> ascii_whitespace (b64char (c mod 64))"
    using b64_group_bounds [OF a b c] by (simp_all only: b64char_not_ws not_False_eq_True)
  have np: "b64char (c mod 64) \<noteq> 61"
    using b64_group_bounds [OF a b c] by (simp only: b64char_not_pad not_False_eq_True)
  have ih: "b64_decodes (strip_padding (b64enc r)) r" "\<not> list_ex ascii_whitespace (b64enc r)"
    using "4.IH" r by simp_all
  have sp: "strip_padding (b64enc (a # b # c # r)) =
      b64char (a div 4) # b64char (a mod 4 * 16 + b div 16) #
      b64char (b mod 16 * 4 + c div 64) # b64char (c mod 64) # strip_padding (b64enc r)"
  proof (cases "r = []")
    case True
    then show ?thesis using np by (simp add: strip_padding_def del: b64char.simps)
  next
    case False
    then have "b64enc r \<noteq> []" by (simp add: b64enc_Nil_iff)
    then show ?thesis by (simp add: strip_padding_Cons4 del: b64char.simps)
  qed
  have "b64_decodes (strip_padding (b64enc (a # b # c # r))) (a # b # c # r)"
    unfolding sp
    using ih(1) v w b64_group_decode [OF b c]
    by (simp add: b64_decodes_def del: b64val.simps b64char.simps)
  moreover have "\<not> list_ex ascii_whitespace (b64enc (a # b # c # r))"
    using ih(2) w by (simp del: b64char.simps)
  ultimately show ?case by simp
qed

lemma atob_btoa:
  assumes "btoa s = Inr t"
  shows "atob t = Inr s"
proof -
  have ok: "\<not> list_ex (\<lambda>c. 255 < c) s" and t: "t = b64enc s"
    using assms by (auto simp: btoa_def split: if_splits)
  from b64enc_decodes [OF ok]
  have d: "b64_decodes (strip_padding (b64enc s)) s" and w: "\<not> list_ex ascii_whitespace (b64enc s)"
    by simp_all
  have f: "filter (\<lambda>c. \<not> ascii_whitespace c) (b64enc s) = b64enc s"
    using w by (simp add: list_ex_iff)
  show ?thesis
    using d by (simp add: atob_def t f b64_decodes_def Let_def)
qed

lemma dec_digits_digits: "list_all is_digit (dec_digits n)"
proof (induction n rule: dec_digits.induct)
  case (1 n)
  show ?case
  proof (cases "n < 10")
    case True
    then show ?thesis
      by (subst dec_digits.simps) (simp add: is_digit_def)
  next
    case False
    have "n mod 10 < 10" by simp
    then have "is_digit (48 + n mod 10)"
      unfolding is_digit_def by linarith
    with False "1.IH" show ?thesis
      by (subst dec_digits.simps) simp
  qed
qed

lemma dec_digits_not_Nil: "dec_digits n \<noteq> []"
  by (subst dec_digits.simps) simp

lemma digits_value_snoc: "digits_value (ds @ [d]) = 10 * digits_value ds + (d - 48)"
  by (simp add: digits_value_def)

lemma digits_value_dec_digits: "digits_value (dec_digits n) = n"
proof (induction n rule: dec_digits.induct)
  case (1 n)
  show ?case
  proof (cases "n < 10")
    case True
    then show ?thesis
      by (subst dec_digits.simps) (simp add: digits_value_def)
  next
    case False
    with "1.IH" show ?thesis
      by (subst dec_digits.simps) (simp add: digits_value_snoc)
  qed
qed

lemma hd_dec_digits: "0 < n \<Longrightarrow> hd (dec_digits n) \<noteq> 48"
proof (induction n rule: dec_digits.induct)
  case (1 n)
  show ?case
  proof (cases "n < 10")
    case True
    with "1.prems" show ?thesis
      by (subst dec_digits.simps) simp
  next
    case False
    then have "0 < n div 10" by simp
    with "1.IH" False have "hd (dec_digits (n div 10)) \<noteq> 48" by simp
    with False show ?thesis
      by (subst dec_digits.simps) (simp add: dec_digits_not_Nil)
  qed
qed

lemma dec_digits_0: "dec_digits 0 = [48]"
  by (subst dec_digits.simps) simp

lemma dec_digits_leading:
  "\<not> (1 < length (dec_digits n) \<and> hd (dec_digits n) = 48)"
proof (cases "n = 0")
  case True
  then show ?thesis by (simp add: dec_digits_0)
next
  case False
  then show ?thesis using hd_dec_digits [of n] by simp
qed

lemma takeWhile_digits:
  "\<not> is_digit c \<Longrightarrow> takeWhile is_digit (dec_digits n @ c # rest) = dec_digits n"
  using dec_digits_digits [of n] by (simp add: takeWhile_append2 list_all_iff)

lemma dropWhile_digits:
  "\<not> is_digit c \<Longrightarrow> dropWhile is_digit (dec_digits n @ c # rest) = c # rest"
  using dec_digits_digits [of n] by (simp add: dropWhile_append2 list_all_iff)

lemma lex_sign_digits: "lex_sign (dec_digits n @ rest) = (False, dec_digits n @ rest)"
proof -
  obtain d ds where d: "dec_digits n = d # ds"
    using dec_digits_not_Nil [of n] by (cases "dec_digits n") auto
  have "is_digit d"
    using dec_digits_digits [of n] d by simp
  then have "d \<noteq> 45" by (auto simp: is_digit_def)
  then show ?thesis by (simp add: lex_sign_def d)
qed

lemma lex_number_dec_digits:
  assumes "number_end c"
  shows "lex_number (dec_digits n @ c # rest) = Some ((False, n, 0), c # rest)"
proof -
  have nd: "\<not> is_digit c" and c: "c \<noteq> 46" "c \<noteq> 101" "c \<noteq> 69"
    using assms by (simp_all add: number_end_def)
  have f: "lex_fraction (c # rest) = Some ([], c # rest)"
    using c by (simp add: lex_fraction_def)
  have e: "lex_exponent (c # rest) = Some ((False, 0), c # rest)"
    using c by (simp add: lex_exponent_def)
  have u: "lex_unsigned (dec_digits n @ c # rest) = Some ((n, 0), c # rest)"
    using dec_digits_leading [of n]
    by (simp add: lex_unsigned_def takeWhile_digits [OF nd] dropWhile_digits [OF nd] f e
        dec_digits_not_Nil digits_value_dec_digits scale_def Let_def)
  show ?thesis
    by (simp add: lex_number_def lex_sign_digits u)
qed

lemma tokenize_dec_digits:
  assumes "number_end c"
  shows "tokenize (dec_digits n @ c # rest) = cons_token (TNumber False n 0) (tokenize (c # rest))"
proof -
  obtain d ds where d: "dec_digits n = d # ds"
    using dec_digits_not_Nil [of n] by (cases "dec_digits n") auto
  have dg: "is_digit d"
    using dec_digits_digits [of n] d by simp
  then have x: "\<not> json_whitespace d" "d \<noteq> 123" "d \<noteq> 125" "d \<noteq> 91" "d \<noteq> 93" "d \<noteq> 58"
      "d \<noteq> 44" "d \<noteq> 34"
    by (auto simp: is_digit_def json_whitespace_def)
  have "lex_number (d # ds @ c # rest) = Some ((False, n, 0), c # rest)"
    using lex_number_dec_digits [OF assms, of n rest] by (simp add: d)
  then show ?thesis
    using x dg by (simp add: d del: tokenize.simps) (simp add: tokenize.simps(2) [of d])
qed

lemma hexval_hexdigit: "d < 16 \<Longrightarrow> hexval (hexdigit d) = Some d"
  by (auto simp: hexval_def hexdigit_def)

lemma hex_split:
  assumes "c < (65536::nat)"
  shows "c div 4096 mod 16 * 4096 + c div 256 mod 16 * 256 + c div 16 mod 16 * 16 + c mod 16 = c"
proof -
  have a: "c div 4096 mod 16 = c div 4096"
    using assms by simp
  have x: "c div 4096 = c div 256 div 16"
    by (simp add: div_mult2_eq [symmetric])
  have y: "c div 256 = c div 16 div 16"
    by (simp add: div_mult2_eq [symmetric])
  have b: "c div 256 = c div 4096 * 16 + c div 256 mod 16"
    unfolding x by simp
  have d: "c div 16 = c div 256 * 16 + c div 16 mod 16"
    unfolding y by simp
  have e: "c = c div 16 * 16 + c mod 16"
    by simp
  show ?thesis
    unfolding a using b d e by linarith
qed

lemma hex4_unicode_escape:
  assumes "c < 65536"
  shows "hex4 (hexdigit (c div 4096 mod 16)) (hexdigit (c div 256 mod 16))
           (hexdigit (c div 16 mod 16)) (hexdigit (c mod 16)) = Some c"
proof -
  have h: "hexval (hexdigit (c div 4096 mod 16)) = Some (c div 4096 mod 16)"
      "hexval (hexdigit (c div 256 mod 16)) = Some (c div 256 mod 16)"
      "hexval (hexdigit (c div 16 mod 16)) = Some (c div 16 mod 16)"
      "hexval (hexdigit (c mod 16)) = Some (c mod 16)"
    by (simp_all only: hexval_hexdigit mod_less_divisor zero_less_numeral)
  show ?thesis
    unfolding hex4_def by (simp only: h prod.case option.case hex_split [OF assms])
qed

lemma lex_string_escape:
  assumes "c < 65536"
  shows "lex_string (unicode_escape c @ xs) = cons_unit c (lex_string xs)"
  by (simp add: unicode_escape_def hex4_unicode_escape [OF assms])

lemma lex_string_close: "lex_string (34 # rest) = Some ([], rest)"
  by simp

lemma lex_string_quote_body: "lex_string (quote_body s @ 34 # rest) = Some (s, rest)"
proof (induction s rule: quote_body.induct)
  case 1
  show ?case by simp
next
  case (2 c cs)
  let ?short = "c = 8 \<or> c = 9 \<or> c = 10 \<or> c = 12 \<or> c = 13 \<or> c = 34 \<or> c = 92"
  consider (short) "?short"
    | (ctl) "\<not> ?short" "c < 32"
    | (high) "\<not> ?short" "\<not> c < 32" "high_surrogate c"
    | (low) "\<not> ?short" "\<not> c < 32" "\<not> high_surrogate c" "low_surrogate c"
    | (plain) "\<not> ?short" "\<not> c < 32" "\<not> high_surrogate c" "\<not> low_surrogate c"
    by blast
  then show ?case
  proof cases
    case short
    then have ih: "lex_string (quote_body cs @ 34 # rest) = Some (cs, rest)"
      using "2.IH"(1-7) by auto
    from short show ?thesis
      by (elim disjE) (simp_all add: ih unescape_def cons_unit_def)
  next
    case ctl
    then have lt: "c < 65536" by simp
    have ih: "lex_string (quote_body cs @ 34 # rest) = Some (cs, rest)"
      using "2.IH"(8) ctl by simp
    have "quote_body (c # cs) = unicode_escape c @ quote_body cs"
      using ctl by simp
    then show ?thesis
      by (simp add: lex_string_escape [OF lt] ih cons_unit_def del: lex_string.simps quote_body.simps)
  next
    case high
    then have lt: "c < 65536" by (simp add: high_surrogate_def)
    have c: "c \<noteq> 34" "c \<noteq> 92" "\<not> c < 32"
      using high by simp_all
    show ?thesis
    proof (cases cs)
      case Nil
      have "quote_body (c # cs) = unicode_escape c"
        using high Nil by simp
      then show ?thesis
        using Nil
        by (simp add: lex_string_escape [OF lt] lex_string_close cons_unit_def
            del: lex_string.simps quote_body.simps)
    next
      case (Cons d ds)
      show ?thesis
      proof (cases "low_surrogate d")
        case True
        then have d: "\<not> d < 32" "d \<noteq> 34" "d \<noteq> 92"
          by (simp_all add: low_surrogate_def)
        have ih: "lex_string (quote_body ds @ 34 # rest) = Some (ds, rest)"
          using "2.IH"(9) high True Cons by simp
        have "quote_body (c # cs) = c # d # quote_body ds"
          using high True Cons by simp
        then show ?thesis
          using c d Cons by (simp add: ih cons_unit_def del: quote_body.simps)
      next
        case False
        have ih: "lex_string (quote_body cs @ 34 # rest) = Some (cs, rest)"
          using "2.IH"(10) high False Cons by simp
        have "quote_body (c # cs) = unicode_escape c @ quote_body cs"
          using high False Cons by simp
        then show ?thesis
          by (simp add: lex_string_escape [OF lt] ih cons_unit_def
              del: lex_string.simps quote_body.simps)
      qed
    qed
  next
    case low
    then have lt: "c < 65536" by (simp add: low_surrogate_def)
    have ih: "lex_string (quote_body cs @ 34 # rest) = Some (cs, rest)"
      using "2.IH"(11) low by simp
    have "quote_body (c # cs) = unicode_escape c @ quote_body cs"
      using low by simp
    then show ?thesis
      by (simp add: lex_string_escape [OF lt] ih cons_unit_def
          del: lex_string.simps quote_body.simps)
  next
    case plain
    have ih: "lex_string (quote_body cs @ 34 # rest) = Some (cs, rest)"
      using "2.IH"(12) plain by simp
    have "quote_body (c # cs) = c # quote_body cs"
      using plain by simp
    then show ?thesis
      using plain by (simp add: ih cons_unit_def del: quote_body.simps)
  qed
qed

lemma tokenize_quoteJSON:
  "tokenize (quoteJSON s @ rest) = cons_token (TString s) (tokenize rest)"
  by (simp add: quoteJSON_def json_whitespace_def lex_string_quote_body)

lemma tokenize_punctuation:
  "tokenize (123 # r) = cons_token TLBrace (tokenize r)"
  "tokenize (125 # r) = cons_token TRBrace (tokenize r)"
  "tokenize (58 # r) = cons_token TColon (tokenize r)"
  "tokenize (44 # r) = cons_token TComma (tokenize r)"
  by (simp_all add: json_whitespace_def)

lemma number_end_punctuation: "number_end 44" "number_end 125"
  by (simp_all add: number_end_def is_digit_def)

lemma stringify_offerPayload:
  "JSON_stringify (offerPayload H (sessionDescription t d) f pw) =
     123 # quoteJSON (js ''sdp'') @ 58 #
       (123 # quoteJSON (js ''type'') @ 58 # quoteJSON t @ 44 #
              quoteJSON (js ''sdp'') @ 58 # quoteJSON d @ [125]) @ 44 #
     quoteJSON (js ''fileName'') @ 58 # quoteJSON (name f) @ 44 #
     quoteJSON (js ''fileSize'') @ 58 # dec_digits (length (contents f)) @
     (if pw \<noteq> [] then 44 # quoteJSON (js ''passwordHash'') @ 58 # quoteJSON (H pw) @ [125]
      else [125])"
  by (simp add: offerPayload_def sessionDescription_def number_to_string_def)

lemma tokenize_offerPayload:
  "tokenize (JSON_stringify (offerPayload H (sessionDescription t d) f pw)) =
     Some ([TLBrace, TString (js ''sdp''), TColon,
              TLBrace, TString (js ''type''), TColon, TString t, TComma,
                       TString (js ''sdp''), TColon, TString d, TRBrace, TComma,
            TString (js ''fileName''), TColon, TString (name f), TComma,
            TString (js ''fileSize''), TColon, TNumber False (length (contents f)) 0] @
           (if pw \<noteq> [] then [TComma, TString (js ''passwordHash''), TColon, TString (H pw), TRBrace]
            else [TRBrace]))"
  unfolding stringify_offerPayload
  by (simp add: tokenize_quoteJSON tokenize_punctuation tokenize_dec_digits
      number_end_punctuation cons_token_def tokenize.simps(1) del: tokenize.simps(2))

lemma parse_stringify_offerPayload:
  "JSON_parse (JSON_stringify (offerPayload H (sessionDescription t d) f pw)) =
     Inr (offerPayload H (sessionDescription t d) f pw)"
  unfolding JSON_parse_def tokenize_offerPayload
  by (simp add: offerPayload_def sessionDescription_def)

text \<open>
  Whenever the encoding of an offer produces a token, decoding the token gives the
  payload back; and the encoding produces a token when no code unit of the file name,
  of the session description and of the digest is above 255.
\<close>

lemma decodeToken_encodeOffer:
  assumes "encodeOffer H (sessionDescription t d) f pw = Inr tok"
  shows "decodeToken tok = Inr (offerPayload H (sessionDescription t d) f pw)"
  using atob_btoa [OF assms [unfolded encodeOffer_def]]
  by (simp add: decodeToken_def parse_stringify_offerPayload)

lemma hexdigit_narrow: "d < 16 \<Longrightarrow> hexdigit d \<le> 255"
  by (simp add: hexdigit_def)

lemma unicode_escape_narrow: "\<not> list_ex (\<lambda>c. 255 < c) (unicode_escape c)"
proof -
  have "hexdigit (c div 4096 mod 16) \<le> 255" "hexdigit (c div 256 mod 16) \<le> 255"
      "hexdigit (c div 16 mod 16) \<le> 255" "hexdigit (c mod 16) \<le> 255"
    by (simp_all only: hexdigit_narrow mod_less_divisor zero_less_numeral)
  then show ?thesis
    by (simp add: unicode_escape_def not_less)
qed

lemma quote_body_narrow:
  "\<not> list_ex (\<lambda>c. 255 < c) s \<Longrightarrow> \<not> list_ex (\<lambda>c. 255 < c) (quote_body s)"
proof (induction s rule: quote_body.induct)
  case 1
  show ?case by simp
next
  case (2 c cs)
  have c: "c \<le> 255" and cs: "\<not> list_ex (\<lambda>c. 255 < c) cs"
    using "2.prems" by simp_all
  have s: "\<not> high_surrogate c" "\<not> low_surrogate c"
    using c by (simp_all add: high_surrogate_def low_surrogate_def)
  let ?short = "c = 8 \<or> c = 9 \<or> c = 10 \<or> c = 12 \<or> c = 13 \<or> c = 34 \<or> c = 92"
  consider (short) "?short" | (ctl) "\<not> ?short" "c < 32" | (plain) "\<not> ?short" "\<not> c < 32"
    by blast
  then show ?case
  proof cases
    case short
    then have ih: "\<not> list_ex (\<lambda>c. 255 < c) (quote_body cs)"
    proof (elim disjE)
      assume "c = 8" then show ?thesis using "2.IH"(1) cs by simp
    next
      assume "c = 9" then show ?thesis using "2.IH"(2) cs by simp
    next
      assume "c = 10" then show ?thesis using "2.IH"(3) cs by simp
    next
      assume "c = 12" then show ?thesis using "2.IH"(4) cs by simp
    next
      assume "c = 13" then show ?thesis using "2.IH"(5) cs by simp
    next
      assume "c = 34" then show ?thesis using "2.IH"(6) cs by simp
    next
      assume "c = 92" then show ?thesis using "2.IH"(7) cs by simp
    qed
    from short show ?thesis
      by (elim disjE) (simp_all add: ih)
  next
    case ctl
    have ih: "\<not> list_ex (\<lambda>c. 255 < c) (quote_body cs)"
      using "2.IH"(8) ctl cs by simp
    have "quote_body (c # cs) = unicode_escape c @ quote_body cs"
      using ctl by simp
    then show ?thesis
      using ih unicode_escape_narrow [of c] by (simp del: quote_body.simps)
  next
    case plain
    have ih: "\<not> list_ex (\<lambda>c. 255 < c) (quote_body cs)"
      using "2.IH"(12) plain s cs by simp
    have "quote_body (c # cs) = c # quote_body cs"
      using plain s by simp
    then show ?thesis
      using ih c by (simp del: quote_body.simps)
  qed
qed

lemma quoteJSON_narrow:
  "\<not> list_ex (\<lambda>c. 255 < c) s \<Longrightarrow> \<not> list_ex (\<lambda>c. 255 < c) (quoteJSON s)"
  using quote_body_narrow [of s] by (simp add: quoteJSON_def)

lemma js_narrow: "\<not> list_ex (\<lambda>c. 255 < c) (js s)"
proof -
  have "of_char c \<le> (255::nat)" for c
    using of_char_mod_256 [of c, where ?'a = nat] mod_less_divisor [of 256 "of_char c"]
    by linarith
  then show ?thesis
    by (auto simp: js_def list_ex_iff not_less)
qed

lemma dec_digits_narrow: "\<not> list_ex (\<lambda>c. 255 < c) (dec_digits n)"
  using dec_digits_digits [of n] by (auto simp: list_ex_iff list_all_iff is_digit_def)

lemma encodeOffer_narrow:
  assumes "\<not> list_ex (\<lambda>c. 255 < c) (name f)" and "\<not> list_ex (\<lambda>c. 255 < c) t"
    and "\<not> list_ex (\<lambda>c. 255 < c) d" and "\<not> list_ex (\<lambda>c. 255 < c) (H pw)"
  shows "encodeOffer H (sessionDescription t d) f pw =
           Inr (b64enc (JSON_stringify (offerPayload H (sessionDescription t d) f pw)))"
proof -
  have "\<not> list_ex (\<lambda>c. 255 < c) (JSON_stringify (offerPayload H (sessionDescription t d) f pw))"
    unfolding stringify_offerPayload
    using assms [THEN quoteJSON_narrow] quoteJSON_narrow [OF js_narrow] dec_digits_narrow
    by simp
  then show ?thesis
    by (simp add: encodeOffer_def btoa_def)
qed

section \<open>Properties\<close>

text \<open>
  Claim C3. A binary frame never completes the transfer: after any sequence of binary
  frames the state and the download are as before, and the \<open>done\<close> message sets
  \<open>transferComplete\<close>. The blob of the download, however, is built from the
  \<open>receivedFileChunks\<close> of the render that installed the handler, not from the frames
  received since: whatever frames arrive, the download is the concatenation of the
  chunks of that render. A handler installed in the initial state that receives the
  frame \<open>[1, 2, 3]\<close> and then \<open>done\<close> offers an empty download, while the state holds
  the frame.
\<close>

theorem receive_done_blob_from_render:
  "appState (receive r (map Binary fs) st) = appState st \<and>
   downloadUrl (receive r (map Binary fs) st) = downloadUrl st \<and>
   appState (receive r (map Binary fs @ [Text doneMessage]) st) = TransferComplete \<and>
   downloadUrl (receive r (map Binary fs @ [Text doneMessage]) st) = Some (concat (receivedFileChunks r)) \<and>
   receivedFileChunks (receive r (map Binary fs @ [Text doneMessage]) st) = receivedFileChunks st @ fs \<and>
   downloadUrl (receive initial [Binary [1, 2, 3], Text doneMessage] initial) = Some [] \<and>
   receivedFileChunks (receive initial [Binary [1, 2, 3], Text doneMessage] initial) = [[1, 2, 3]]"
proof -
  have a: "downloadUrl (receive r (map Binary gs @ [Text doneMessage]) s) = Some (concat (receivedFileChunks r)) \<and>
        appState (receive r (map Binary gs @ [Text doneMessage]) s) = TransferComplete \<and>
        receivedFileChunks (receive r (map Binary gs @ [Text doneMessage]) s) = receivedFileChunks s @ gs"
    for r gs s
    by (simp add: receive_snoc onmessage_Text isDoneMessage_doneMessage receive_frames)
  have b: "[Binary [1, 2, 3], Text doneMessage] = map Binary [[1, 2, 3]] @ [Text doneMessage]"
    by simp
  show ?thesis
    unfolding b using a [of r fs st] a [of initial "[[1, 2, 3]]" initial]
    by (simp add: receive_frames initial_def)
qed

text \<open>
  Claim C8. On the receiving side the counter written after a frame is the
  \<open>transferredBytes\<close> of the render that installed the handler plus the length of that
  frame, whatever was counted before. For the file of 40000 bytes the sender sends
  frames of 16384, 16384 and 7232 bytes, and a handler installed in the initial state
  shows the counter values 16384, 16384 and 7232: the counter falls at the third frame
  and never reaches 40000.
\<close>

theorem receiver_counter_from_render:
  "transferredBytes (receive r (map Binary (fs @ [b])) st) = transferredBytes r + length b \<and>
   sent (sendFileInChunks (\<lambda>k. True)
          (initial\<lparr>the_file := Some \<lparr>name = js ''a'', contents = replicate 40000 0\<rparr>\<rparr>)
          (initial\<lparr>dataChannel := Some DataChannel\<rparr>)) =
     [Binary (replicate 16384 0), Binary (replicate 16384 0), Binary (replicate 7232 0),
      Text doneMessage] \<and>
   map (\<lambda>k. transferredBytes
               (receive initial
                  (take k [Binary (replicate 16384 0), Binary (replicate 16384 0),
                           Binary (replicate 7232 0), Text doneMessage])
                  initial))
     [1, 2, 3] = [16384, 16384, 7232]"
proof -
  have s: "sent (sendFileInChunks (\<lambda>k. True)
          (initial\<lparr>the_file := Some \<lparr>name = js ''a'', contents = replicate 40000 0\<rparr>\<rparr>)
          (initial\<lparr>dataChannel := Some DataChannel\<rparr>)) =
     [Binary (replicate 16384 0), Binary (replicate 16384 0), Binary (replicate 7232 0),
      Text doneMessage]"
    using readSlice_40000 [of "initial\<lparr>dataChannel := Some DataChannel\<rparr>"
        "\<lparr>name = js ''a'', contents = replicate 40000 0\<rparr>"]
    by (simp add: sendFileInChunks_def sent_def initial_def)
  have t: "transferredBytes initial = 0"
    by (simp add: initial_def)
  have i: "receivedFileInfo initial = None"
    by (simp add: initial_def)
  have c: "map (\<lambda>k. transferredBytes
               (receive initial
                  (take k [Binary (replicate 16384 0), Binary (replicate 16384 0),
                           Binary (replicate 7232 0), Text doneMessage])
                  initial))
     [1, 2, 3] = [16384, 16384, 7232]"
    by (simp add: receive_Cons receive_Nil onmessage_Binary t i)
  from s c receive_counter [of r fs b st] show ?thesis
    by blast
qed

text \<open>
  Claim C5, as amended. A text message is a control message exactly when it parses
  and the value carries the \<open>done\<close> tag; every other text message leaves the state as
  it is. A binary message is appended to the received sequence and changes neither the
  state of the application nor the download. No message changes the error.
\<close>

theorem onmessage_classification:
  "onmessage r (Text data) st =
     (if isDoneMessage data
      then st\<lparr>downloadUrl := Some (concat (receivedFileChunks r)), appState := TransferComplete\<rparr>
      else st) \<and>
   receivedFileChunks (onmessage r (Binary b) st) = receivedFileChunks st @ [b] \<and>
   appState (onmessage r (Binary b) st) = appState st \<and>
   downloadUrl (onmessage r (Binary b) st) = downloadUrl st \<and>
   error (onmessage r msg st) = error st"
  by (cases msg) (simp_all add: onmessage_Text onmessage_Binary split: option.splits)

lemma tokenize_hello: "tokenize (js ''hello'') = None"
  by (simp add: js_def json_whitespace_def is_digit_def)

lemma tokenize_type_x:
  "tokenize (js ''{\"type\":\"x\"}'') =
     Some [TLBrace, TString (js ''type''), TColon, TString (js ''x''), TRBrace]"
  by (simp add: js_def cons_token_def cons_unit_def json_whitespace_def)

text \<open>
  Claim C5 as stated fails: the text \<open>hello\<close>, which does not parse, and the text
  \<open>{"type":"x"}\<close>, which parses without the tag, are not appended to the received
  sequence and do not advance the counter; they leave the state as it is.
\<close>

theorem onmessage_text_not_a_frame:
  "JSON_parse (js ''hello'') = Inl SyntaxError \<and>
   onmessage initial (Text (js ''hello'')) initial = initial \<and>
   receivedFileChunks (onmessage initial (Text (js ''hello'')) initial) = [] \<and>
   transferredBytes (onmessage initial (Text (js ''hello'')) initial) = 0 \<and>
   JSON_parse (js ''{\"type\":\"x\"}'') = Inr (JObj [(js ''type'', JStr (js ''x''))]) \<and>
   onmessage initial (Text (js ''{\"type\":\"x\"}'')) initial = initial"
proof -
  have h: "JSON_parse (js ''hello'') = Inl SyntaxError"
    by (simp add: JSON_parse_def tokenize_hello)
  have x: "JSON_parse (js ''{\"type\":\"x\"}'') = Inr (JObj [(js ''type'', JStr (js ''x''))])"
    by (simp add: JSON_parse_def tokenize_type_x)
  have nx: "js ''x'' \<noteq> js ''done''"
    by (simp add: js_def)
  show ?thesis
    using nx by (simp add: h x onmessage_Text isDoneMessage_def initial_def)
qed

text \<open>
  Claim C7. \<open>resetState\<close> returns to \<open>idle\<close>, clears every state variable, the download,
  both refs and the fragment, and closes the connection and the channel that were there.
  It leaves the \<open>offerPayload\<close> slot of the local storage as it is: a payload stored
  there is still there after the reset.
\<close>

theorem resetState_keeps_localStorage:
  "localStorage (resetState st) = localStorage st \<and>
   appState (resetState st) = Idle \<and> the_file (resetState st) = None \<and>
   password (resetState st) = [] \<and> error (resetState st) = None \<and>
   offer (resetState st) = None \<and> isCopied (resetState st) = False \<and>
   progress (resetState st) = Fin 0 \<and> transferredBytes (resetState st) = 0 \<and>
   receivedFileInfo (resetState st) = None \<and> receivedFileChunks (resetState st) = [] \<and>
   downloadUrl (resetState st) = None \<and> peerConnection (resetState st) = None \<and>
   dataChannel (resetState st) = None \<and> hash (resetState st) = [] \<and>
   effects (resetState st) =
     effects st @ (if downloadUrl st \<noteq> None then [RevokeObjectURL] else []) @
     (if peerConnection st \<noteq> None then [ClosePeerConnection] else []) @
     (if dataChannel st \<noteq> None then [CloseDataChannel] else []) \<and>
   localStorage (resetState (initial\<lparr>appState := Error, localStorage := Some (js ''{\"passwordHash\":\"x\"}'')\<rparr>)) =
     Some (js ''{\"passwordHash\":\"x\"}'')"
  by (simp add: resetState_def)

lemma js_eq_iff [simp]: "(js a = js b) = (a = b)"
  by (simp add: js_def inj_map_eq_map inj_of_char)

lemma js_eq_Nil [simp]: "(js a = []) = (a = [])"
  by (simp add: js_def)

lemma getProp_not_null: "getProp v k = Inr a \<Longrightarrow> \<exists>b. getProp v k' = Inr b"
  by (cases v) simp_all

lemma JSON_parse_Nil: "JSON_parse [] = Inl SyntaxError"
  by (simp add: JSON_parse_def)

lemma processOffer_localStorage: "localStorage (processOffer tr payload st) = localStorage st"
  by (simp add: processOffer_def processOffer_failed_def createPeerConnection_def Let_def
      split: sum.splits negotiation.splits)

lemma processOffer_Negotiated:
  assumes "getProp payload (js ''sdp'') = Inr d" and "tr d = Negotiated"
  shows "appState (processOffer tr payload st) = GeneratingAnswer"
proof -
  obtain n sz where "getProp payload (js ''fileName'') = Inr n"
      and "getProp payload (js ''fileSize'') = Inr sz"
    using getProp_not_null [OF assms(1)] by blast
  then show ?thesis
    using assms by (simp add: processOffer_def createPeerConnection_def Let_def)
qed

lemma processOffer_not_Negotiated:
  assumes "getProp payload (js ''sdp'') = Inr d" and "tr d \<noteq> Negotiated"
    and "getProp payload (js ''fileName'') = Inr n" and "getProp payload (js ''fileSize'') = Inr sz"
  shows "processOffer tr payload st =
     st\<lparr>receivedFileInfo := Some \<lparr>info_name = n, info_size = sz\<rparr>,
        peerConnection := Some \<lparr>remoteDescription = (if tr d = RemoteRejected then None else Some d),
                                 localDescription = False\<rparr>,
        error := Some ''Failed to process transmission. The link might be invalid.'',
        appState := Error\<rparr>"
  using assms
  by (cases "tr d")
     (simp_all add: processOffer_def processOffer_failed_def createPeerConnection_def Let_def)

text \<open>
  Claim C6. In \<open>awaitingPassword\<close> with a stored payload that carries the digest \<open>h\<close>:
  a secret whose digest differs from \<open>h\<close> only sets the error
  \<open>Incorrect secret code.\<close>, so the state stays \<open>awaitingPassword\<close> and the stored
  payload stays; a secret whose digest is \<open>h\<close> removes the stored payload and processes
  the offer, which ends in \<open>generatingAnswer\<close> when the transport accepts the
  description.
\<close>

theorem handlePasswordSubmit_gate:
  assumes "appState st = AwaitingPassword" and "localStorage st = Some payloadStr"
    and "JSON_parse payloadStr = Inr payload"
    and "getProp payload (js ''passwordHash'') = Inr (Some (JStr h))"
  shows "(H pass \<noteq> h \<longrightarrow>
           handlePasswordSubmit H tr pass st = Inr (st\<lparr>error := Some ''Incorrect secret code.''\<rparr>) \<and>
           appState (st\<lparr>error := Some ''Incorrect secret code.''\<rparr>) = AwaitingPassword \<and>
           localStorage (st\<lparr>error := Some ''Incorrect secret code.''\<rparr>) = Some payloadStr) \<and>
         (H pass = h \<longrightarrow>
           (\<exists>st'. handlePasswordSubmit H tr pass st = Inr st' \<and> localStorage st' = None \<and>
              (\<forall>d. getProp payload (js ''sdp'') = Inr d \<and> tr d = Negotiated \<longrightarrow>
                 appState st' = GeneratingAnswer)))"
proof (intro conjI impI)
  have ne: "payloadStr \<noteq> []"
    using assms(3) JSON_parse_Nil by auto
  assume "H pass \<noteq> h"
  then show "handlePasswordSubmit H tr pass st = Inr (st\<lparr>error := Some ''Incorrect secret code.''\<rparr>)"
    using assms ne by (simp add: handlePasswordSubmit_def)
  show "appState (st\<lparr>error := Some ''Incorrect secret code.''\<rparr>) = AwaitingPassword"
    using assms by simp
  show "localStorage (st\<lparr>error := Some ''Incorrect secret code.''\<rparr>) = Some payloadStr"
    using assms by simp
next
  have ne: "payloadStr \<noteq> []"
    using assms(3) JSON_parse_Nil by auto
  assume "H pass = h"
  then have "handlePasswordSubmit H tr pass st =
      Inr (processOffer tr payload (st\<lparr>localStorage := None\<rparr>))"
    using assms ne by (simp add: handlePasswordSubmit_def)
  then show "\<exists>st'. handlePasswordSubmit H tr pass st = Inr st' \<and> localStorage st' = None \<and>
              (\<forall>d. getProp payload (js ''sdp'') = Inr d \<and> tr d = Negotiated \<longrightarrow>
                 appState st' = GeneratingAnswer)"
    by (auto simp: processOffer_localStorage processOffer_Negotiated)
qed

lemma tokenize_payload:
  "tokenize (js ''{\"sdp\":{\"type\":\"offer\",\"sdp\":\"v=0\"},\"fileName\":\"a.txt\",\"fileSize\":3,\"passwordHash\":\"swordfish\"}'') =
     Some [TLBrace, TString (js ''sdp''), TColon,
             TLBrace, TString (js ''type''), TColon, TString (js ''offer''), TComma,
                      TString (js ''sdp''), TColon, TString (js ''v=0''), TRBrace, TComma,
           TString (js ''fileName''), TColon, TString (js ''a.txt''), TComma,
           TString (js ''fileSize''), TColon, TNumber False 3 0, TComma,
           TString (js ''passwordHash''), TColon, TString (js ''swordfish''), TRBrace]"
  by (simp add: js_def cons_token_def cons_unit_def json_whitespace_def is_digit_def
      lex_number_def lex_unsigned_def lex_sign_def lex_fraction_def lex_exponent_def
      scale_def digits_value_def)

lemma parse_payload:
  "JSON_parse (js ''{\"sdp\":{\"type\":\"offer\",\"sdp\":\"v=0\"},\"fileName\":\"a.txt\",\"fileSize\":3,\"passwordHash\":\"swordfish\"}'') =
     Inr (JObj [(js ''sdp'', JObj [(js ''type'', JStr (js ''offer'')), (js ''sdp'', JStr (js ''v=0''))]),
                (js ''fileName'', JStr (js ''a.txt'')), (js ''fileSize'', JNum False 3 0),
                (js ''passwordHash'', JStr (js ''swordfish''))])"
  by (simp add: JSON_parse_def tokenize_payload)

theorem handlePasswordSubmit_gate_witness:
  "handlePasswordSubmit (\<lambda>s. s) (\<lambda>d. Negotiated) (js ''wrong'')
     (initial\<lparr>appState := AwaitingPassword,
        localStorage := Some (js ''{\"sdp\":{\"type\":\"offer\",\"sdp\":\"v=0\"},\"fileName\":\"a.txt\",\"fileSize\":3,\"passwordHash\":\"swordfish\"}'')\<rparr>) =
   Inr (initial\<lparr>appState := AwaitingPassword,
        localStorage := Some (js ''{\"sdp\":{\"type\":\"offer\",\"sdp\":\"v=0\"},\"fileName\":\"a.txt\",\"fileSize\":3,\"passwordHash\":\"swordfish\"}''),
        error := Some ''Incorrect secret code.''\<rparr>) \<and>
   (\<exists>st'. handlePasswordSubmit (\<lambda>s. s) (\<lambda>d. Negotiated) (js ''swordfish'')
            (initial\<lparr>appState := AwaitingPassword,
               localStorage := Some (js ''{\"sdp\":{\"type\":\"offer\",\"sdp\":\"v=0\"},\"fileName\":\"a.txt\",\"fileSize\":3,\"passwordHash\":\"swordfish\"}'')\<rparr>) =
          Inr st' \<and> localStorage st' = None \<and> appState st' = GeneratingAnswer)"
proof -
  let ?str = "js ''{\"sdp\":{\"type\":\"offer\",\"sdp\":\"v=0\"},\"fileName\":\"a.txt\",\"fileSize\":3,\"passwordHash\":\"swordfish\"}''"
  let ?S = "initial\<lparr>appState := AwaitingPassword, localStorage := Some ?str\<rparr>"
  let ?P = "JObj [(js ''sdp'', JObj [(js ''type'', JStr (js ''offer'')), (js ''sdp'', JStr (js ''v=0''))]),
                (js ''fileName'', JStr (js ''a.txt'')), (js ''fileSize'', JNum False 3 0),
                (js ''passwordHash'', JStr (js ''swordfish''))]"
  have a: "appState ?S = AwaitingPassword" by simp
  have b: "localStorage ?S = Some ?str" by simp
  have c: "getProp ?P (js ''passwordHash'') = Inr (Some (JStr (js ''swordfish'')))"
    by (simp add: js_def)
  have d: "getProp ?P (js ''sdp'') =
      Inr (Some (JObj [(js ''type'', JStr (js ''offer'')), (js ''sdp'', JStr (js ''v=0''))]))"
    by (simp add: js_def)
  have w: "js ''wrong'' \<noteq> js ''swordfish''"
    by (simp add: js_def)
  from handlePasswordSubmit_gate [OF a b parse_payload c, of "\<lambda>s. s" "js ''wrong''" "\<lambda>d. Negotiated"]
    handlePasswordSubmit_gate [OF a b parse_payload c, of "\<lambda>s. s" "js ''swordfish''" "\<lambda>d. Negotiated"]
    w d
  show ?thesis by (simp add: initial_def)
qed

text \<open>
  Claim C9, as amended. When one of the awaited calls of \<open>processOffer\<close> throws, the
  state becomes \<open>error\<close> with the message of the handler, and the metadata of the file
  and the peer connection that were stored before the call stay stored; \<open>resetState\<close>
  is what discards them.
\<close>

theorem processOffer_failure_keeps_effects:
  assumes "getProp payload (js ''sdp'') = Inr d" and "tr d \<noteq> Negotiated"
  shows "\<exists>n sz pc.
     getProp payload (js ''fileName'') = Inr n \<and> getProp payload (js ''fileSize'') = Inr sz \<and>
     processOffer tr payload st =
       st\<lparr>receivedFileInfo := Some \<lparr>info_name = n, info_size = sz\<rparr>,
          peerConnection := Some pc,
          error := Some ''Failed to process transmission. The link might be invalid.'',
          appState := Error\<rparr> \<and>
     receivedFileInfo (resetState (processOffer tr payload st)) = None \<and>
     peerConnection (resetState (processOffer tr payload st)) = None"
proof -
  obtain n sz where n: "getProp payload (js ''fileName'') = Inr n"
      and sz: "getProp payload (js ''fileSize'') = Inr sz"
    using getProp_not_null [OF assms(1)] by blast
  show ?thesis
    using n sz processOffer_not_Negotiated
        [where tr=tr and d=d and payload=payload and st=st, OF assms n sz]
    by (auto simp: resetState_def)
qed

theorem processOffer_failure_keeps_effects_witness:
  "appState (processOffer (\<lambda>d. RemoteRejected)
     (JObj [(js ''sdp'', JNull), (js ''fileName'', JStr (js ''a.txt'')), (js ''fileSize'', JNum False 3 0)])
     initial) = Error \<and>
   receivedFileInfo (processOffer (\<lambda>d. RemoteRejected)
     (JObj [(js ''sdp'', JNull), (js ''fileName'', JStr (js ''a.txt'')), (js ''fileSize'', JNum False 3 0)])
     initial) =
     Some \<lparr>info_name = Some (JStr (js ''a.txt'')), info_size = Some (JNum False 3 0)\<rparr> \<and>
   peerConnection (processOffer (\<lambda>d. RemoteRejected)
     (JObj [(js ''sdp'', JNull), (js ''fileName'', JStr (js ''a.txt'')), (js ''fileSize'', JNum False 3 0)])
     initial) \<noteq> None \<and>
   receivedFileInfo (resetState (processOffer (\<lambda>d. RemoteRejected)
     (JObj [(js ''sdp'', JNull), (js ''fileName'', JStr (js ''a.txt'')), (js ''fileSize'', JNum False 3 0)])
     initial)) = None"
proof -
  let ?P = "JObj [(js ''sdp'', JNull), (js ''fileName'', JStr (js ''a.txt'')), (js ''fileSize'', JNum False 3 0)]"
  have a: "getProp ?P (js ''sdp'') = Inr (Some JNull)"
    by (simp add: js_def)
  have b: "(\<lambda>d::jsval. RemoteRejected) (Some JNull) \<noteq> Negotiated"
    by simp
  have n: "getProp ?P (js ''fileName'') = Inr (Some (JStr (js ''a.txt'')))"
    by (simp add: js_def)
  have sz: "getProp ?P (js ''fileSize'') = Inr (Some (JNum False 3 0))"
    by (simp add: js_def)
  from processOffer_failure_keeps_effects
    [where tr="\<lambda>d. RemoteRejected" and d="Some JNull" and st=initial, OF a b]
  obtain n' sz' pc where
    "getProp ?P (js ''fileName'') = Inr n'" "getProp ?P (js ''fileSize'') = Inr sz'"
    "processOffer (\<lambda>d. RemoteRejected) ?P initial =
       initial\<lparr>receivedFileInfo := Some \<lparr>info_name = n', info_size = sz'\<rparr>,
          peerConnection := Some pc,
          error := Some ''Failed to process transmission. The link might be invalid.'',
          appState := Error\<rparr>"
    "receivedFileInfo (resetState (processOffer (\<lambda>d. RemoteRejected) ?P initial)) = None"
    by blast
  then show ?thesis
    using n sz by simp
qed

text \<open>
  Claim C9 as stated fails: from the initial state, with a transport that rejects the
  remote description, \<open>processOffer\<close> enters \<open>error\<close> with the metadata of the file and
  the peer connection set, which were not set before.
\<close>

theorem processOffer_failure_not_rolled_back:
  "receivedFileInfo initial = None \<and> peerConnection initial = None \<and>
   appState (processOffer (\<lambda>d. RemoteRejected)
     (JObj [(js ''sdp'', JNull), (js ''fileName'', JStr (js ''a.txt'')), (js ''fileSize'', JNum False 3 0)])
     initial) = Error \<and>
   receivedFileInfo (processOffer (\<lambda>d. RemoteRejected)
     (JObj [(js ''sdp'', JNull), (js ''fileName'', JStr (js ''a.txt'')), (js ''fileSize'', JNum False 3 0)])
     initial) =
     Some \<lparr>info_name = Some (JStr (js ''a.txt'')), info_size = Some (JNum False 3 0)\<rparr> \<and>
   peerConnection (processOffer (\<lambda>d. RemoteRejected)
     (JObj [(js ''sdp'', JNull), (js ''fileName'', JStr (js ''a.txt'')), (js ''fileSize'', JNum False 3 0)])
     initial) = Some \<lparr>remoteDescription = None, localDescription = False\<rparr>"
  by (simp add: js_def processOffer_def processOffer_failed_def createPeerConnection_def initial_def)

lemma decodeToken_Inl:
  "(decodeToken s = Inl e) = (atob s = Inl e \<or> (\<exists>t. atob s = Inr t \<and> JSON_parse t = Inl e))"
  by (simp add: decodeToken_def split: sum.splits)

text \<open>
  Claim C4, as amended. A token on which \<open>atob\<close> throws, or whose decoded text
  \<open>JSON.parse\<close> rejects, is refused: as the fragment in state \<open>idle\<close> it sets the error
  \<open>Invalid transmission link.\<close> and the state \<open>error\<close> and changes nothing else; as
  the answer it sets the error \<open>Invalid counter-signal format. Please try again.\<close> and
  changes nothing else.
\<close>

theorem undecodable_token_rejected:
  assumes "atob s = Inl e \<or> (\<exists>t. atob s = Inr t \<and> JSON_parse t = Inl e)"
  shows "(s \<noteq> [] \<and> appState st = Idle \<longrightarrow>
           useEffect tr (st\<lparr>hash := s\<rparr>) =
             st\<lparr>hash := s, error := Some ''Invalid transmission link.'', appState := Error\<rparr>) \<and>
         handleConnect tr s st =
           st\<lparr>error := Some ''Invalid counter-signal format. Please try again.''\<rparr>"
proof -
  have "decodeToken s = Inl e"
    using assms by (simp add: decodeToken_Inl)
  then show ?thesis
    by (simp add: useEffect_def handleConnect_def)
qed

lemma atob_zzzzz: "atob (js ''zzzzz'') = Inl InvalidCharacterError"
  by (simp add: atob_def js_def strip_padding_def ascii_whitespace_def)

lemma atob_hello: "atob (js ''aGVsbG8='') = Inr (js ''hello'')"
  by (simp add: atob_def js_def strip_padding_def ascii_whitespace_def)

theorem undecodable_token_rejected_witness:
  "useEffect (\<lambda>d. Negotiated) (initial\<lparr>hash := js ''zzzzz''\<rparr>) =
     initial\<lparr>hash := js ''zzzzz'', error := Some ''Invalid transmission link.'', appState := Error\<rparr> \<and>
   useEffect (\<lambda>d. Negotiated) (initial\<lparr>hash := js ''aGVsbG8=''\<rparr>) =
     initial\<lparr>hash := js ''aGVsbG8='', error := Some ''Invalid transmission link.'', appState := Error\<rparr> \<and>
   handleConnect (\<lambda>d. Negotiated) (js ''aGVsbG8='') (initial\<lparr>appState := AwaitingAnswer\<rparr>) =
     initial\<lparr>appState := AwaitingAnswer,
       error := Some ''Invalid counter-signal format. Please try again.''\<rparr>"
proof -
  have p: "JSON_parse (js ''hello'') = Inl SyntaxError"
    by (simp add: JSON_parse_def tokenize_hello)
  have a: "atob (js ''zzzzz'') = Inl InvalidCharacterError \<or>
      (\<exists>t. atob (js ''zzzzz'') = Inr t \<and> JSON_parse t = Inl InvalidCharacterError)"
    by (simp add: atob_zzzzz)
  have b: "atob (js ''aGVsbG8='') = Inl SyntaxError \<or>
      (\<exists>t. atob (js ''aGVsbG8='') = Inr t \<and> JSON_parse t = Inl SyntaxError)"
    by (simp add: atob_hello p)
  have i: "appState initial = Idle"
    by (simp add: initial_def)
  have z: "js ''zzzzz'' \<noteq> []" "js ''aGVsbG8='' \<noteq> []"
    by (simp_all add: js_def)
  from undecodable_token_rejected [OF a, of initial "\<lambda>d. Negotiated"]
    undecodable_token_rejected [OF b, of initial "\<lambda>d. Negotiated"]
    undecodable_token_rejected [OF b, of "initial\<lparr>appState := AwaitingAnswer\<rparr>" "\<lambda>d. Negotiated"]
    i z
  show ?thesis by simp
qed

lemma atob_passwordHash_x:
  "atob (js ''eyJwYXNzd29yZEhhc2giOiJ4In0='') = Inr (js ''{\"passwordHash\":\"x\"}'')"
  by (simp add: atob_def js_def strip_padding_def ascii_whitespace_def)

lemma tokenize_passwordHash_x:
  "tokenize (js ''{\"passwordHash\":\"x\"}'') =
     Some [TLBrace, TString (js ''passwordHash''), TColon, TString (js ''x''), TRBrace]"
  by (simp add: js_def cons_token_def cons_unit_def json_whitespace_def)

lemma decodeToken_passwordHash_x:
  "decodeToken (js ''eyJwYXNzd29yZEhhc2giOiJ4In0='') = Inr (JObj [(js ''passwordHash'', JStr (js ''x''))])"
  by (simp add: decodeToken_def atob_passwordHash_x JSON_parse_def tokenize_passwordHash_x)

lemma useEffect_gated:
  assumes "hash st \<noteq> []" and "appState st = Idle" and "decodeToken (hash st) = Inr payload"
    and "getProp payload (js ''passwordHash'') = Inr h" and "truthy h"
  shows "useEffect tr st =
           st\<lparr>localStorage := Some (JSON_stringify payload), appState := AwaitingPassword\<rparr>"
  using assms by (simp add: useEffect_def)

text \<open>
  Claim C4 as stated fails: the token of \<open>{"passwordHash":"x"}\<close> decodes to a value
  without \<open>sdp\<close>, \<open>fileName\<close> and \<open>fileSize\<close>, and the effect on the fragment does not
  refuse it: it stores the value and asks for the secret. No field is checked by the
  decoding.
\<close>

theorem token_without_fields_accepted:
  "decodeToken (js ''eyJwYXNzd29yZEhhc2giOiJ4In0='') = Inr (JObj [(js ''passwordHash'', JStr (js ''x''))]) \<and>
   getProp (JObj [(js ''passwordHash'', JStr (js ''x''))]) (js ''sdp'') = Inr None \<and>
   getProp (JObj [(js ''passwordHash'', JStr (js ''x''))]) (js ''fileName'') = Inr None \<and>
   getProp (JObj [(js ''passwordHash'', JStr (js ''x''))]) (js ''fileSize'') = Inr None \<and>
   useEffect (\<lambda>d. RemoteRejected) (initial\<lparr>hash := js ''eyJwYXNzd29yZEhhc2giOiJ4In0=''\<rparr>) =
     initial\<lparr>hash := js ''eyJwYXNzd29yZEhhc2giOiJ4In0='',
       localStorage := Some (js ''{\"passwordHash\":\"x\"}''), appState := AwaitingPassword\<rparr>"
proof -
  have s: "JSON_stringify (JObj [(js ''passwordHash'', JStr (js ''x''))]) = js ''{\"passwordHash\":\"x\"}''"
    by (simp add: js_def quoteJSON_def high_surrogate_def low_surrogate_def)
  have i: "appState initial = Idle"
    by (simp add: initial_def)
  have t: "truthy (Some (JStr (js ''x'')))"
    by (simp add: js_def)
  have u: "useEffect (\<lambda>d. RemoteRejected) (initial\<lparr>hash := js ''eyJwYXNzd29yZEhhc2giOiJ4In0=''\<rparr>) =
     initial\<lparr>hash := js ''eyJwYXNzd29yZEhhc2giOiJ4In0='',
       localStorage := Some (js ''{\"passwordHash\":\"x\"}''), appState := AwaitingPassword\<rparr>"
  proof -
    let ?st = "initial\<lparr>hash := js ''eyJwYXNzd29yZEhhc2giOiJ4In0=''\<rparr>"
    have h: "hash ?st \<noteq> []" by simp
    have i': "appState ?st = Idle"
      by (simp add: i)
    have d: "decodeToken (hash ?st) = Inr (JObj [(js ''passwordHash'', JStr (js ''x''))])"
      using decodeToken_passwordHash_x by simp
    have p: "getProp (JObj [(js ''passwordHash'', JStr (js ''x''))]) (js ''passwordHash'') =
        Inr (Some (JStr (js ''x'')))"
      by simp
    show ?thesis
      unfolding useEffect_gated [OF h i' d p t] s ..
  qed
  have g: "getProp (JObj [(js ''passwordHash'', JStr (js ''x''))]) (js ''sdp'') = Inr None"
     "getProp (JObj [(js ''passwordHash'', JStr (js ''x''))]) (js ''fileName'') = Inr None"
     "getProp (JObj [(js ''passwordHash'', JStr (js ''x''))]) (js ''fileSize'') = Inr None"
    by (simp_all add: js_def)
  show ?thesis
    using decodeToken_passwordHash_x g u by blast
qed


subsection \<open>The progress of an empty transfer\<close>

lemma sendFileInChunks_empty_file:
  assumes "the_file r = Some f" and "contents f = []" and "dataChannel st \<noteq> None" and "opn 0"
  shows "progress (sendFileInChunks opn r st) = NaN"
    and "sent (sendFileInChunks opn r st) = sent st @ [Binary [], Text doneMessage]"
proof -
  have run: "sendFileInChunks opn r st = readSlice opn f 0 st"
    using assms by (auto simp: sendFileInChunks_def)
  show "progress (sendFileInChunks opn r st) = NaN"
    unfolding run
    by (simp add: readSlice_open [where st=st and opn=opn and offset=0 and f=f, OF assms(3,4)]
        assms(2) divide_nat_def)
  show "sent (sendFileInChunks opn r st) = sent st @ [Binary [], Text doneMessage]"
    unfolding run
    by (simp add: readSlice_open [where st=st and opn=opn and offset=0 and f=f, OF assms(3,4)]
        assms(2) sent_def)
qed

lemma onmessage_progress_kept:
  "receivedFileInfo r = None \<Longrightarrow> progress (onmessage r m st) = progress st"
  by (cases m) (simp_all add: onmessage_def Let_def split: sum.splits)

lemma useEffect_open:
  assumes "hash st \<noteq> []" and "appState st = Idle" and "decodeToken (hash st) = Inr payload"
    and "getProp payload (js ''passwordHash'') = Inr h" and "\<not> truthy h"
  shows "useEffect tr st = processOffer tr payload (st\<lparr>appState := ProcessingOffer\<rparr>)"
  using assms by (simp add: useEffect_def)

lemma processOffer_Negotiated_state:
  assumes "getProp payload (js ''sdp'') = Inr d" and "tr d = Negotiated"
    and "getProp payload (js ''fileName'') = Inr n" and "getProp payload (js ''fileSize'') = Inr sz"
  shows "processOffer tr payload st =
     st\<lparr>receivedFileInfo := Some \<lparr>info_name = n, info_size = sz\<rparr>,
        peerConnection := Some \<lparr>remoteDescription = Some d, localDescription = True\<rparr>,
        appState := GeneratingAnswer\<rparr>"
  using assms by (simp add: processOffer_def createPeerConnection_def Let_def)

text \<open>
  Claim C10. The sender of a file of no bytes computes \<open>Math.round((0 / 0) * 100)\<close>,
  which is \<open>NaN\<close>, after its one empty frame. The receiver does not: the fragment that
  carries the offer of the empty file \<open>empty\<close> is processed by the effect of the first
  render, the state then holds the metadata with the size 0, and the connection comes
  up; but the handler of \<open>message\<close> belongs to that first render, whose
  \<open>receivedFileInfo\<close> is \<open>null\<close>, so the empty frame leaves the progress at 0 and line
  125 is not run.
\<close>

theorem receiver_progress_not_computed:
  "receivedFileInfo
     (onconnectionstatechange Connected
        (useEffect (\<lambda>d. Negotiated)
           (initial\<lparr>hash := b64enc (JSON_stringify
              (offerPayload (\<lambda>s. s) (sessionDescription (js ''offer'') (js ''v=0''))
                 \<lparr>name = js ''empty'', contents = []\<rparr> []))\<rparr>))) =
     Some \<lparr>info_name = Some (JStr (js ''empty'')), info_size = Some (JNum False 0 0)\<rparr> \<and>
   appState
     (onconnectionstatechange Connected
        (useEffect (\<lambda>d. Negotiated)
           (initial\<lparr>hash := b64enc (JSON_stringify
              (offerPayload (\<lambda>s. s) (sessionDescription (js ''offer'') (js ''v=0''))
                 \<lparr>name = js ''empty'', contents = []\<rparr> []))\<rparr>))) = Transferring \<and>
   progress
     (onmessage
        (initial\<lparr>hash := b64enc (JSON_stringify
           (offerPayload (\<lambda>s. s) (sessionDescription (js ''offer'') (js ''v=0''))
              \<lparr>name = js ''empty'', contents = []\<rparr> []))\<rparr>)
        (Binary [])
        (onconnectionstatechange Connected
           (useEffect (\<lambda>d. Negotiated)
              (initial\<lparr>hash := b64enc (JSON_stringify
                 (offerPayload (\<lambda>s. s) (sessionDescription (js ''offer'') (js ''v=0''))
                    \<lparr>name = js ''empty'', contents = []\<rparr> []))\<rparr>)))) = Fin 0 \<and>
   progress
     (sendFileInChunks (\<lambda>k. True)
        (initial\<lparr>the_file := Some \<lparr>name = js ''empty'', contents = []\<rparr>\<rparr>)
        (initial\<lparr>the_file := Some \<lparr>name = js ''empty'', contents = []\<rparr>,
           dataChannel := Some DataChannel\<rparr>)) = NaN"
proof -
  let ?f = "\<lparr>name = js ''empty'', contents = []\<rparr>"
  let ?p = "offerPayload (\<lambda>s. s) (sessionDescription (js ''offer'') (js ''v=0'')) ?f []"
  let ?tok = "b64enc (JSON_stringify ?p)"
  let ?r = "initial\<lparr>hash := ?tok\<rparr>"
  let ?d = "sessionDescription (js ''offer'') (js ''v=0'')"
  have enc: "encodeOffer (\<lambda>s. s) ?d ?f [] = Inr ?tok"
    by (rule encodeOffer_narrow) (simp_all add: js_narrow)
  have dec: "decodeToken (hash ?r) = Inr ?p"
    using decodeToken_encodeOffer [OF enc] by simp
  have ne: "hash ?r \<noteq> []"
    by (simp add: b64enc_Nil_iff stringify_offerPayload)
  have idle: "appState ?r = Idle"
    by (simp add: initial_def)
  have g: "getProp ?p (js ''passwordHash'') = Inr None"
      "getProp ?p (js ''sdp'') = Inr (Some ?d)"
      "getProp ?p (js ''fileName'') = Inr (Some (JStr (js ''empty'')))"
      "getProp ?p (js ''fileSize'') = Inr (Some (JNum False 0 0))"
    by (simp_all add: offerPayload_def)
  have u: "useEffect (\<lambda>d. Negotiated) ?r =
      ?r\<lparr>appState := ProcessingOffer,
         receivedFileInfo := Some \<lparr>info_name = Some (JStr (js ''empty'')),
                                   info_size = Some (JNum False 0 0)\<rparr>,
         peerConnection := Some \<lparr>remoteDescription = Some (Some ?d), localDescription = True\<rparr>,
         appState := GeneratingAnswer\<rparr>"
    unfolding useEffect_open [OF ne idle dec g(1), simplified]
    by (rule processOffer_Negotiated_state [OF g(2) _ g(3) g(4)]) simp
  have none: "receivedFileInfo ?r = None"
    by (simp add: initial_def)
  have p0: "progress ?r = Fin 0"
    by (simp add: initial_def)
  have s: "progress (sendFileInChunks (\<lambda>k. True) (initial\<lparr>the_file := Some ?f\<rparr>)
      (initial\<lparr>the_file := Some ?f, dataChannel := Some DataChannel\<rparr>)) = NaN"
    by (rule sendFileInChunks_empty_file(1) [where f = ?f]) simp_all
  show ?thesis
    unfolding onmessage_progress_kept [OF none] u
    using s p0 by (simp add: onconnectionstatechange_def)
qed

subsection \<open>The token\<close>

text \<open>
  \<open>createPeerConnection\<close> is memoised on \<open>appState\<close>, \<open>file\<close> and \<open>password\<close> (line 99).
  It is called by \<open>handleCreateLink\<close>, whose button is on the screen of \<open>idle\<close>, and by
  \<open>processOffer\<close>, which the effect starts from a render in \<open>idle\<close> and
  \<open>handlePasswordSubmit\<close> from one in \<open>awaitingPassword\<close>. The handler of
  \<open>icecandidate\<close> of such a render finds neither \<open>generatingOffer\<close> nor
  \<open>generatingAnswer\<close> in its \<open>appState\<close> and does nothing, whatever the file is called:
  the encoding of line 70 is then not run.
\<close>

lemma onicecandidate_other_render:
  "appState r \<noteq> GeneratingOffer \<Longrightarrow> appState r \<noteq> GeneratingAnswer \<Longrightarrow>
     onicecandidate H r ld st = Inr st"
  by (simp add: onicecandidate_def)




end
